theory Spec2Isabelle
  imports Main
begin

section \<open>Data model (models.py, main.py)\<close>

text \<open>
  A naive \<^verbatim>\<open>datetime\<close> as \<^verbatim>\<open>datetime.utcnow()\<close> returns it: calendar fields and
  microseconds, no time zone.
\<close>

record datetime =
  year :: nat
  month :: nat
  day :: nat
  hour :: nat
  minute :: nat
  second :: nat
  microsecond :: nat

text \<open>
  The rows of the two tables. \<^verbatim>\<open>id\<close> is the integer primary key, \<^verbatim>\<open>age\<close> the only
  nullable column; field names carry the table's initial because \<^verbatim>\<open>id\<close>, \<^verbatim>\<open>name\<close>
  and \<^verbatim>\<open>created_at\<close> occur in both classes.
\<close>

record User =
  u_id :: int
  u_name :: string
  u_email :: string
  u_age :: "int option"
  u_created_at :: datetime

record Post =
  p_id :: int
  p_title :: string
  p_content :: string
  p_author_id :: int
  p_created_at :: datetime

text \<open>The output types and input types of the schema (main.py, lines 12-38).\<close>

record UserType =
  ut_id :: int
  ut_name :: string
  ut_email :: string
  ut_age :: "int option"
  ut_created_at :: string

record PostType =
  pt_id :: int
  pt_title :: string
  pt_content :: string
  pt_created_at :: string
  pt_author :: UserType

record UserInput =
  ui_name :: string
  ui_email :: string
  ui_age :: "int option"

record UserUpdateInput =
  uu_name :: "string option"
  uu_email :: "string option"
  uu_age :: "int option"

record PostInput =
  pi_title :: string
  pi_content :: string
  pi_author_id :: int

text \<open>
  The exceptions a resolver can leave with. \<^verbatim>\<open>Exception msg\<close> is the resolvers' own
  \<^verbatim>\<open>raise Exception(msg)\<close>; \<^verbatim>\<open>IntegrityError\<close> is what the commit raises when the store
  rejects a statement (the unique index on \<^verbatim>\<open>user.email\<close>, the \<^verbatim>\<open>NOT NULL\<close> of
  \<^verbatim>\<open>post.author_id\<close>); \<^verbatim>\<open>AttributeError\<close> is an attribute read on \<^verbatim>\<open>None\<close>.
\<close>

datatype error = Exception string | IntegrityError | AttributeError

definition DuplicateEmail :: error where
  "DuplicateEmail = Exception ''User with this email already exists''"

definition UserNotFound :: error where
  "UserNotFound = Exception ''User not found''"

definition AuthorNotFound :: error where
  "AuthorNotFound = Exception ''Author not found''"

definition PostNotFound :: error where
  "PostNotFound = Exception ''Post not found''"

section \<open>\<^verbatim>\<open>datetime.isoformat()\<close>\<close>

definition digit_char :: "nat \<Rightarrow> char" where
  "digit_char d = char_of (48 + d)"

fun digits :: "nat \<Rightarrow> string" where
  "digits n = (if n < 10 then [digit_char n] else digits (n div 10) @ [digit_char (n mod 10)])"

declare digits.simps [simp del]

definition zero_pad :: "nat \<Rightarrow> nat \<Rightarrow> string" where
  "zero_pad w n = replicate (w - length (digits n)) (CHR ''0'') @ digits n"

text \<open>
  \<^verbatim>\<open>YYYY-MM-DDTHH:MM:SS\<close>, followed by \<^verbatim>\<open>.ffffff\<close> when the microseconds are not zero.
\<close>

definition isoformat :: "datetime \<Rightarrow> string" where
  "isoformat d =
     zero_pad 4 (year d) @ ''-'' @ zero_pad 2 (month d) @ ''-'' @ zero_pad 2 (day d) @ ''T'' @
     zero_pad 2 (hour d) @ '':'' @ zero_pad 2 (minute d) @ '':'' @ zero_pad 2 (second d) @
     (if microsecond d = 0 then [] else ''.'' @ zero_pad 6 (microsecond d))"

section \<open>The subscription (main.py, lines 312-318)\<close>

text \<open>
  \<^verbatim>\<open>for i in range(target): yield i\<close>: the loop variable starts at 0, is emitted while
  it is below \<^verbatim>\<open>target\<close>, and the generator completes when the loop ends. The model is
  the list of the values emitted up to completion; the one-second sleep between two
  emissions has no counterpart here.
\<close>

function range_from :: "int \<Rightarrow> int \<Rightarrow> int list" where
  "range_from i target = (if i < target then i # range_from (i + 1) target else [])"
  by pat_completeness auto
termination
  by (relation "measure (\<lambda>(i, target). nat (target - i))") auto

declare range_from.simps [simp del]

definition count :: "int \<Rightarrow> int list" where
  "count target = range_from 0 target"

section \<open>The store (database.py, models.py)\<close>

text \<open>
  The SQLite file behind \<^verbatim>\<open>engine\<close>: the rows of table \<^verbatim>\<open>user\<close> and of table
  \<^verbatim>\<open>post\<close>, each in the order a \<^verbatim>\<open>SELECT\<close> without \<^verbatim>\<open>ORDER BY\<close> scans them
  (by rowid, which is the integer primary key).
\<close>

record store =
  user_table :: "User list"
  post_table :: "Post list"

text \<open>
  What models.py makes the store enforce, and what the resolvers keep: primary keys
  strictly increasing along each table, \<^verbatim>\<open>user.email\<close> unique, and every
  \<^verbatim>\<open>post.author_id\<close> naming a stored user.
\<close>

definition wf_store :: "store \<Rightarrow> bool" where
  "wf_store s \<longleftrightarrow>
     sorted_wrt (<) (map u_id (user_table s)) \<and>
     distinct (map u_email (user_table s)) \<and>
     sorted_wrt (<) (map p_id (post_table s)) \<and>
     list_all (\<lambda>p. list_ex (\<lambda>u. u_id u = p_author_id p) (user_table s)) (post_table s)"

subsection \<open>Session operations\<close>

text \<open>\<^verbatim>\<open>session.get(User, id)\<close> and \<^verbatim>\<open>session.get(Post, id)\<close>: the row or \<^verbatim>\<open>None\<close>.\<close>

definition session_get_user :: "store \<Rightarrow> int \<Rightarrow> User option" where
  "session_get_user s i = find (\<lambda>u. u_id u = i) (user_table s)"

definition session_get_post :: "store \<Rightarrow> int \<Rightarrow> Post option" where
  "session_get_post s i = find (\<lambda>p. p_id p = i) (post_table s)"

text \<open>
  \<^verbatim>\<open>select(T).offset(offset).limit(limit)\<close> run on SQLite. \<^verbatim>\<open>None\<close> leaves the clause
  out; SQLite reads a negative \<^verbatim>\<open>OFFSET\<close> as zero and a negative \<^verbatim>\<open>LIMIT\<close> as no
  upper bound.
\<close>

definition offset_limit :: "int option \<Rightarrow> int option \<Rightarrow> 'a list \<Rightarrow> 'a list" where
  "offset_limit offset limit rows =
     (let rest = (case offset of None \<Rightarrow> rows | Some off \<Rightarrow> drop (nat off) rows)
      in case limit of
           None \<Rightarrow> rest
         | Some l \<Rightarrow> if l < 0 then rest else take (nat l) rest)"

text \<open>\<^verbatim>\<open>session.exec(select(User).where(User.email == email)).first()\<close>\<close>

definition first_user_with_email :: "store \<Rightarrow> string \<Rightarrow> User option" where
  "first_user_with_email s e = find (\<lambda>u. u_email u = e) (user_table s)"

text \<open>
  The key SQLite gives a row inserted without one: 1 into an empty table, otherwise one
  more than the largest key in the table. (Integers are Python's, unbounded.)
\<close>

definition next_rowid :: "int list \<Rightarrow> int" where
  "next_rowid ids = (if ids = [] then 1 else Max (set ids) + 1)"

text \<open>
  \<^verbatim>\<open>session.add(user); session.commit(); session.refresh(user)\<close> for a new object: the
  insert is rejected when the email is already in the unique index, otherwise the row
  gets its key and goes to the end of the table.
\<close>

definition commit_new_user :: "string \<Rightarrow> string \<Rightarrow> int option \<Rightarrow> datetime \<Rightarrow> store \<Rightarrow> error + User \<times> store" where
  "commit_new_user name email age now s =
     (if list_ex (\<lambda>v. u_email v = email) (user_table s) then Inl IntegrityError
      else
        let user = \<lparr>u_id = next_rowid (map u_id (user_table s)), u_name = name, u_email = email,
                     u_age = age, u_created_at = now\<rparr>
        in Inr (user, s\<lparr>user_table := user_table s @ [user]\<rparr>))"

text \<open>
  The same three calls for a loaded and modified user: the row with the object's key is
  replaced, unless another row holds the new email already.
\<close>

definition commit_user :: "User \<Rightarrow> store \<Rightarrow> error + store" where
  "commit_user user s =
     (if list_ex (\<lambda>v. u_id v \<noteq> u_id user \<and> u_email v = u_email user) (user_table s)
      then Inl IntegrityError
      else Inr (s\<lparr>user_table := map (\<lambda>v. if u_id v = u_id user then user else v) (user_table s)\<rparr>))"

text \<open>
  \<^verbatim>\<open>session.delete(user); session.commit()\<close>. The relationship \<^verbatim>\<open>User.posts\<close> is declared
  without a delete cascade, so the unit of work first detaches the user's posts by
  setting their \<^verbatim>\<open>author_id\<close> to \<^verbatim>\<open>NULL\<close>; the column is declared \<^verbatim>\<open>author_id: int\<close>,
  hence \<^verbatim>\<open>NOT NULL\<close>, and the store rejects that update. A user without posts is
  deleted.
\<close>

definition commit_delete_user :: "User \<Rightarrow> store \<Rightarrow> error + store" where
  "commit_delete_user user s =
     (if list_ex (\<lambda>p. p_author_id p = u_id user) (post_table s) then Inl IntegrityError
      else Inr (s\<lparr>user_table := filter (\<lambda>v. u_id v \<noteq> u_id user) (user_table s)\<rparr>))"

text \<open>Insert, update and delete of a post; no constraint of the store can reject them.\<close>

definition commit_new_post :: "string \<Rightarrow> string \<Rightarrow> int \<Rightarrow> datetime \<Rightarrow> store \<Rightarrow> Post \<times> store" where
  "commit_new_post title content author_id now s =
     (let post = \<lparr>p_id = next_rowid (map p_id (post_table s)), p_title = title,
                  p_content = content, p_author_id = author_id, p_created_at = now\<rparr>
      in (post, s\<lparr>post_table := post_table s @ [post]\<rparr>))"

definition commit_post :: "Post \<Rightarrow> store \<Rightarrow> store" where
  "commit_post post s =
     s\<lparr>post_table := map (\<lambda>q. if p_id q = p_id post then post else q) (post_table s)\<rparr>"

definition commit_delete_post :: "Post \<Rightarrow> store \<Rightarrow> store" where
  "commit_delete_post post s = s\<lparr>post_table := filter (\<lambda>q. p_id q \<noteq> p_id post) (post_table s)\<rparr>"

text \<open>The relationship \<^verbatim>\<open>post.author\<close>: the user the foreign key names, or \<^verbatim>\<open>None\<close>.\<close>

definition author :: "store \<Rightarrow> Post \<Rightarrow> User option" where
  "author s post = session_get_user s (p_author_id post)"

section \<open>Query resolvers (main.py, lines 41-142)\<close>

text \<open>
  A resolver takes the store and returns its result, or the exception it raised, with
  the store it leaves behind. A \<^verbatim>\<open>with Session(engine)\<close> block left by an exception
  before its commit leaves the store as it was.
\<close>

definition to_UserType :: "User \<Rightarrow> UserType" where
  "to_UserType user =
     \<lparr>ut_id = u_id user, ut_name = u_name user, ut_email = u_email user, ut_age = u_age user,
      ut_created_at = isoformat (u_created_at user)\<rparr>"

definition hello :: "store \<Rightarrow> string \<times> store" where
  "hello s = (''Hello, GraphQL with FastAPI!'', s)"

definition users :: "int option \<Rightarrow> int option \<Rightarrow> store \<Rightarrow> (error + UserType list) \<times> store" where
  "users limit offset s = (Inr (map to_UserType (offset_limit offset limit (user_table s))), s)"

definition user :: "int \<Rightarrow> store \<Rightarrow> (error + UserType option) \<times> store" where
  "user i s =
     (case session_get_user s i of
        Some u \<Rightarrow> (Inr (Some (to_UserType u)), s)
      | None \<Rightarrow> (Inr None, s))"

text \<open>
  The loop of \<^verbatim>\<open>posts\<close>: each selected post is fetched again by its key and its author
  is read through the relationship; an attribute read on \<^verbatim>\<open>None\<close> ends the loop with
  \<^verbatim>\<open>AttributeError\<close>.
\<close>

fun posts_loop :: "store \<Rightarrow> Post list \<Rightarrow> error + PostType list" where
  "posts_loop s [] = Inr []"
| "posts_loop s (post # rest) =
     (case session_get_post s (p_id post) of
        None \<Rightarrow> Inl AttributeError
      | Some post_with_author \<Rightarrow>
          (case author s post_with_author of
             None \<Rightarrow> Inl AttributeError
           | Some a \<Rightarrow>
               (case posts_loop s rest of
                  Inl e \<Rightarrow> Inl e
                | Inr result \<Rightarrow>
                    Inr (\<lparr>pt_id = p_id post_with_author, pt_title = p_title post_with_author,
                          pt_content = p_content post_with_author,
                          pt_created_at = isoformat (p_created_at post_with_author),
                          pt_author = to_UserType a\<rparr> # result))))"

definition posts :: "int option \<Rightarrow> int option \<Rightarrow> store \<Rightarrow> (error + PostType list) \<times> store" where
  "posts limit offset s = (posts_loop s (offset_limit offset limit (post_table s)), s)"

definition post :: "int \<Rightarrow> store \<Rightarrow> (error + PostType option) \<times> store" where
  "post i s =
     (case session_get_post s i of
        None \<Rightarrow> (Inr None, s)
      | Some p \<Rightarrow>
          (case session_get_post s (p_id p) of
             None \<Rightarrow> (Inl AttributeError, s)
           | Some post_with_author \<Rightarrow>
               (case author s post_with_author of
                  None \<Rightarrow> (Inl AttributeError, s)
                | Some a \<Rightarrow>
                    (Inr (Some \<lparr>pt_id = p_id post_with_author, pt_title = p_title post_with_author,
                                pt_content = p_content post_with_author,
                                pt_created_at = isoformat (p_created_at post_with_author),
                                pt_author = to_UserType a\<rparr>), s))))"

section \<open>Mutation resolvers (main.py, lines 145-309)\<close>

text \<open>\<^verbatim>\<open>now\<close> is the value of \<^verbatim>\<open>datetime.utcnow()\<close> when the new object is built.\<close>

definition create_user :: "UserInput \<Rightarrow> datetime \<Rightarrow> store \<Rightarrow> (error + UserType) \<times> store" where
  "create_user user_input now s =
     (case first_user_with_email s (ui_email user_input) of
        Some existing_user \<Rightarrow> (Inl (Exception ''User with this email already exists''), s)
      | None \<Rightarrow>
          (case commit_new_user (ui_name user_input) (ui_email user_input) (ui_age user_input) now s of
             Inl e \<Rightarrow> (Inl e, s)
           | Inr (user1, s') \<Rightarrow> (Inr (to_UserType user1), s')))"

definition update_user :: "int \<Rightarrow> string option \<Rightarrow> string option \<Rightarrow> int option \<Rightarrow> store \<Rightarrow> (error + UserType) \<times> store" where
  "update_user i name email age s =
     (case session_get_user s i of
        None \<Rightarrow> (Inl (Exception ''User not found''), s)
      | Some user0 \<Rightarrow>
          let user1 = (case name of None \<Rightarrow> user0 | Some n \<Rightarrow> user0\<lparr>u_name := n\<rparr>);
              user2 = (case email of None \<Rightarrow> user1 | Some e \<Rightarrow> user1\<lparr>u_email := e\<rparr>);
              user3 = (case age of None \<Rightarrow> user2 | Some a \<Rightarrow> user2\<lparr>u_age := Some a\<rparr>)
          in case commit_user user3 s of
               Inl e \<Rightarrow> (Inl e, s)
             | Inr s' \<Rightarrow> (Inr (to_UserType user3), s'))"

definition delete_user :: "int \<Rightarrow> store \<Rightarrow> (error + bool) \<times> store" where
  "delete_user i s =
     (case session_get_user s i of
        None \<Rightarrow> (Inl (Exception ''User not found''), s)
      | Some user0 \<Rightarrow>
          (case commit_delete_user user0 s of
             Inl e \<Rightarrow> (Inl e, s)
           | Inr s' \<Rightarrow> (Inr True, s')))"

definition create_post :: "PostInput \<Rightarrow> datetime \<Rightarrow> store \<Rightarrow> (error + PostType) \<times> store" where
  "create_post post_input now s =
     (case session_get_user s (pi_author_id post_input) of
        None \<Rightarrow> (Inl (Exception ''Author not found''), s)
      | Some author0 \<Rightarrow>
          (case commit_new_post (pi_title post_input) (pi_content post_input)
                  (pi_author_id post_input) now s of
             (post0, s') \<Rightarrow>
               (case session_get_post s' (p_id post0) of
                  None \<Rightarrow> (Inl AttributeError, s')
                | Some post_with_author \<Rightarrow>
                    (case author s' post_with_author of
                       None \<Rightarrow> (Inl AttributeError, s')
                     | Some a \<Rightarrow>
                         (Inr \<lparr>pt_id = p_id post_with_author, pt_title = p_title post_with_author,
                               pt_content = p_content post_with_author,
                               pt_created_at = isoformat (p_created_at post_with_author),
                               pt_author = to_UserType a\<rparr>, s')))))"

text \<open>
  In \<^verbatim>\<open>update_post\<close> the returned object is built with
  \<^verbatim>\<open>title=post_with_author.content\<close> (main.py, line 284).
\<close>

definition update_post :: "int \<Rightarrow> string option \<Rightarrow> string option \<Rightarrow> store \<Rightarrow> (error + PostType) \<times> store" where
  "update_post i title content s =
     (case session_get_post s i of
        None \<Rightarrow> (Inl (Exception ''Post not found''), s)
      | Some post0 \<Rightarrow>
          let post1 = (case title of None \<Rightarrow> post0 | Some t \<Rightarrow> post0\<lparr>p_title := t\<rparr>);
              post2 = (case content of None \<Rightarrow> post1 | Some c \<Rightarrow> post1\<lparr>p_content := c\<rparr>);
              s' = commit_post post2 s
          in case session_get_post s' (p_id post2) of
               None \<Rightarrow> (Inl AttributeError, s')
             | Some post_with_author \<Rightarrow>
                 (case author s' post_with_author of
                    None \<Rightarrow> (Inl AttributeError, s')
                  | Some a \<Rightarrow>
                      (Inr \<lparr>pt_id = p_id post_with_author, pt_title = p_content post_with_author,
                            pt_content = p_content post_with_author,
                            pt_created_at = isoformat (p_created_at post_with_author),
                            pt_author = to_UserType a\<rparr>, s')))"

definition delete_post :: "int \<Rightarrow> store \<Rightarrow> (error + bool) \<times> store" where
  "delete_post i s =
     (case session_get_post s i of
        None \<Rightarrow> (Inl (Exception ''Post not found''), s)
      | Some post0 \<Rightarrow> (Inr True, commit_delete_post post0 s))"

section \<open>The resolver classes of resolvers.py\<close>

definition UserResolver_hello :: "store \<Rightarrow> string \<times> store" where
  "UserResolver_hello s = (''Hello, GraphQL with FastAPI!'', s)"

definition UserResolver_users :: "int option \<Rightarrow> int option \<Rightarrow> store \<Rightarrow> (error + UserType list) \<times> store" where
  "UserResolver_users limit offset s =
     (Inr (map to_UserType (offset_limit offset limit (user_table s))), s)"

definition UserResolver_user :: "int \<Rightarrow> store \<Rightarrow> (error + UserType option) \<times> store" where
  "UserResolver_user i s =
     (case session_get_user s i of
        Some u \<Rightarrow> (Inr (Some (to_UserType u)), s)
      | None \<Rightarrow> (Inr None, s))"

definition UserMutation_create_user :: "UserInput \<Rightarrow> datetime \<Rightarrow> store \<Rightarrow> (error + UserType) \<times> store" where
  "UserMutation_create_user user_input now s =
     (case first_user_with_email s (ui_email user_input) of
        Some existing_user \<Rightarrow> (Inl (Exception ''User with this email already exists''), s)
      | None \<Rightarrow>
          (case commit_new_user (ui_name user_input) (ui_email user_input) (ui_age user_input) now s of
             Inl e \<Rightarrow> (Inl e, s)
           | Inr (user1, s') \<Rightarrow> (Inr (to_UserType user1), s')))"

definition UserMutation_update_user :: "int \<Rightarrow> UserUpdateInput \<Rightarrow> store \<Rightarrow> (error + UserType) \<times> store" where
  "UserMutation_update_user i user_input s =
     (case session_get_user s i of
        None \<Rightarrow> (Inl (Exception ''User not found''), s)
      | Some user0 \<Rightarrow>
          let user1 = (case uu_name user_input of None \<Rightarrow> user0 | Some n \<Rightarrow> user0\<lparr>u_name := n\<rparr>);
              user2 = (case uu_email user_input of None \<Rightarrow> user1 | Some e \<Rightarrow> user1\<lparr>u_email := e\<rparr>);
              user3 = (case uu_age user_input of None \<Rightarrow> user2 | Some a \<Rightarrow> user2\<lparr>u_age := Some a\<rparr>)
          in case commit_user user3 s of
               Inl e \<Rightarrow> (Inl e, s)
             | Inr s' \<Rightarrow> (Inr (to_UserType user3), s'))"

definition UserMutation_delete_user :: "int \<Rightarrow> store \<Rightarrow> (error + bool) \<times> store" where
  "UserMutation_delete_user i s =
     (case session_get_user s i of
        None \<Rightarrow> (Inl (Exception ''User not found''), s)
      | Some user0 \<Rightarrow>
          (case commit_delete_user user0 s of
             Inl e \<Rightarrow> (Inl e, s)
           | Inr s' \<Rightarrow> (Inr True, s')))"

text \<open>\<^verbatim>\<open>PostResolver.posts\<close> reads the author of each selected post without fetching the post again.\<close>

fun PostResolver_posts_loop :: "store \<Rightarrow> Post list \<Rightarrow> error + PostType list" where
  "PostResolver_posts_loop s [] = Inr []"
| "PostResolver_posts_loop s (post0 # rest) =
     (case author s post0 of
        None \<Rightarrow> Inl AttributeError
      | Some a \<Rightarrow>
          (case PostResolver_posts_loop s rest of
             Inl e \<Rightarrow> Inl e
           | Inr result \<Rightarrow>
               Inr (\<lparr>pt_id = p_id post0, pt_title = p_title post0, pt_content = p_content post0,
                     pt_created_at = isoformat (p_created_at post0),
                     pt_author = to_UserType a\<rparr> # result)))"

definition PostResolver_posts :: "int option \<Rightarrow> int option \<Rightarrow> store \<Rightarrow> (error + PostType list) \<times> store" where
  "PostResolver_posts limit offset s =
     (PostResolver_posts_loop s (offset_limit offset limit (post_table s)), s)"

definition PostMutation_create_post :: "PostInput \<Rightarrow> datetime \<Rightarrow> store \<Rightarrow> (error + PostType) \<times> store" where
  "PostMutation_create_post post_input now s =
     (case session_get_user s (pi_author_id post_input) of
        None \<Rightarrow> (Inl (Exception ''Author not found''), s)
      | Some author0 \<Rightarrow>
          (case commit_new_post (pi_title post_input) (pi_content post_input)
                  (pi_author_id post_input) now s of
             (post0, s') \<Rightarrow>
               (case session_get_post s' (p_id post0) of
                  None \<Rightarrow> (Inl AttributeError, s')
                | Some post_with_author \<Rightarrow>
                    (case author s' post_with_author of
                       None \<Rightarrow> (Inl AttributeError, s')
                     | Some a \<Rightarrow>
                         (Inr \<lparr>pt_id = p_id post_with_author, pt_title = p_title post_with_author,
                               pt_content = p_content post_with_author,
                               pt_created_at = isoformat (p_created_at post_with_author),
                               pt_author = to_UserType a\<rparr>, s')))))"

section \<open>Arguments as the schema binds them\<close>

text \<open>
  A field argument of a request is left out, given as \<^verbatim>\<open>null\<close>, or given a value. A
  resolver parameter declared \<^verbatim>\<open>Optional[T] = default\<close> receives the default in the
  first case, \<^verbatim>\<open>None\<close> in the second and the value in the third.
\<close>

datatype 'a argument = Omitted | Null | Given 'a

definition python_value :: "'a option \<Rightarrow> 'a argument \<Rightarrow> 'a option" where
  "python_value dflt a = (case a of Omitted \<Rightarrow> dflt | Null \<Rightarrow> None | Given v \<Rightarrow> Some v)"

definition updateUser :: "int \<Rightarrow> string argument \<Rightarrow> string argument \<Rightarrow> int argument \<Rightarrow> store \<Rightarrow> (error + UserType) \<times> store" where
  "updateUser i name email age s =
     update_user i (python_value None name) (python_value None email) (python_value None age) s"

definition updatePost :: "int \<Rightarrow> string argument \<Rightarrow> string argument \<Rightarrow> store \<Rightarrow> (error + PostType) \<times> store" where
  "updatePost i title content s =
     update_post i (python_value None title) (python_value None content) s"

text \<open>
  A sequence of update requests, each run on the store the one before left; a request
  that fails leaves an error in its own response only.
\<close>

datatype update_call =
    UpdateUser int "string argument" "string argument" "int argument"
  | UpdatePost int "string argument" "string argument"

fun run_update :: "update_call \<Rightarrow> store \<Rightarrow> store" where
  "run_update (UpdateUser i name email age) s = snd (updateUser i name email age s)"
| "run_update (UpdatePost i title content) s = snd (updatePost i title content s)"

fun run_updates :: "update_call list \<Rightarrow> store \<Rightarrow> store" where
  "run_updates [] s = s"
| "run_updates (c # cs) s = run_updates cs (run_update c s)"

section \<open>Stores the mutations can produce\<close>

text \<open>
  The stores that a sequence of mutation requests produces from the empty tables that
  \<^verbatim>\<open>create_db_and_tables\<close> creates.
\<close>

inductive reachable :: "store \<Rightarrow> bool" where
  empty_tables: "reachable \<lparr>user_table = [], post_table = []\<rparr>"
| after_create_user: "reachable s \<Longrightarrow> reachable (snd (create_user user_input now s))"
| after_update_user: "reachable s \<Longrightarrow> reachable (snd (update_user i name email age s))"
| after_delete_user: "reachable s \<Longrightarrow> reachable (snd (delete_user i s))"
| after_create_post: "reachable s \<Longrightarrow> reachable (snd (create_post post_input now s))"
| after_update_post: "reachable s \<Longrightarrow> reachable (snd (update_post i title content s))"
| after_delete_post: "reachable s \<Longrightarrow> reachable (snd (delete_post i s))"

section \<open>A seeded store\<close>

text \<open>Two users and five posts with the keys 1 to 5, alternating between the two authors.\<close>

definition t0 :: datetime where
  "t0 = \<lparr>year = 2024, month = 5, day = 17, hour = 9, minute = 30, second = 0, microsecond = 0\<rparr>"

definition alice :: User where
  "alice = \<lparr>u_id = 1, u_name = ''Alice'', u_email = ''alice@example.com'', u_age = Some 30,
             u_created_at = t0\<rparr>"

definition bob :: User where
  "bob = \<lparr>u_id = 2, u_name = ''Bob'', u_email = ''bob@example.com'', u_age = None,
           u_created_at = t0\<rparr>"

definition seed_post :: "int \<Rightarrow> int \<Rightarrow> Post" where
  "seed_post k a = \<lparr>p_id = k, p_title = ''Title'', p_content = ''Body'', p_author_id = a,
                     p_created_at = t0\<rparr>"

definition seeded :: store where
  "seeded = \<lparr>user_table = [alice, bob],
             post_table = [seed_post 1 1, seed_post 2 2, seed_post 3 1, seed_post 4 2, seed_post 5 1]\<rparr>"

text \<open>A third user, who has written nothing.\<close>

definition carol :: User where
  "carol = \<lparr>u_id = 3, u_name = ''Carol'', u_email = ''carol@example.com'', u_age = Some 41,
             u_created_at = t0\<rparr>"

definition seeded3 :: store where
  "seeded3 = seeded\<lparr>user_table := [alice, bob, carol]\<rparr>"

section \<open>Properties of the subscription\<close>

lemma range_from_upto: "range_from i target = [i..target - 1]"
proof (induction i target rule: range_from.induct)
  case (1 i target)
  show ?case
  proof (cases "i < target")
    case True
    with 1 have "range_from (i + 1) target = [i + 1..target - 1]" by simp
    with True show ?thesis
      by (subst range_from.simps) (simp add: upto_rec1 [of i "target - 1"])
  next
    case False
    then show ?thesis by (subst range_from.simps) simp
  qed
qed

text \<open>
  C5: for every target the subscription emits exactly the values 0, 1, ..., target - 1,
  in increasing order, as a finite sequence (of length target, empty when target is not
  positive), and for target 3 exactly 0, 1, 2.
\<close>

theorem count_emits_range:
  "count target = [0..target - 1] \<and> length (count target) = nat target
   \<and> sorted_wrt (<) (count target) \<and> count 3 = [0, 1, 2]"
proof -
  have a: "count target = [0..target - 1]" by (simp add: count_def range_from_upto)
  have b: "count 3 = [0, 1, 2]" by (simp add: count_def range_from_upto upto_rec1)
  have c: "sorted_wrt (<) [0..target - 1]" by (rule sorted_wrt_upto)
  from a b c show ?thesis by simp
qed

section \<open>Sample data and lookups\<close>


lemmas seed_defs = seeded_def seeded3_def alice_def bob_def carol_def seed_post_def

lemma next_rowid_greater: "i \<in> set ids \<Longrightarrow> i < next_rowid ids"
proof -
  assume a: "i \<in> set ids"
  then have "ids \<noteq> []" by auto
  moreover from a have "i \<le> Max (set ids)" by simp
  ultimately show ?thesis by (simp add: next_rowid_def)
qed

lemma next_rowid_fresh: "next_rowid ids \<notin> set ids"
  using next_rowid_greater [of "next_rowid ids" ids] by auto

lemma find_key_None: "find (\<lambda>x. f x = i) xs = None \<longleftrightarrow> i \<notin> f ` set xs"
  by (induction xs) auto

lemma find_key_Some: "find (\<lambda>x. f x = i) xs = Some y \<Longrightarrow> y \<in> set xs \<and> f y = i"
  by (induction xs) (auto split: if_splits)

lemma find_append_key:
  "find P (xs @ ys) = (case find P xs of None \<Rightarrow> find P ys | Some x \<Rightarrow> Some x)"
  by (induction xs) auto

lemma isoformat_t0: "isoformat t0 = ''2024-05-17T09:30:00''"
  by code_simp

section \<open>Creating a user\<close>

text \<open>
  C2: when some stored user has the email of the input, createUser fails with
  DuplicateEmail and the store is unchanged; when none has, the user is appended with a
  fresh key and the creation time, and returned with all its fields. Both resolver
  classes do the same.
\<close>

theorem create_user_duplicate_or_insert:
  "((\<exists>u\<in>set (user_table s). u_email u = ui_email inp) \<longrightarrow>
      create_user inp now s = (Inl DuplicateEmail, s)) \<and>
   (\<not> (\<exists>u\<in>set (user_table s). u_email u = ui_email inp) \<longrightarrow>
      create_user inp now s =
        (Inr \<lparr>ut_id = next_rowid (map u_id (user_table s)), ut_name = ui_name inp,
              ut_email = ui_email inp, ut_age = ui_age inp, ut_created_at = isoformat now\<rparr>,
         s\<lparr>user_table := user_table s @
              [\<lparr>u_id = next_rowid (map u_id (user_table s)), u_name = ui_name inp,
                u_email = ui_email inp, u_age = ui_age inp, u_created_at = now\<rparr>]\<rparr>) \<and>
      next_rowid (map u_id (user_table s)) \<notin> u_id ` set (user_table s)) \<and>
   UserMutation_create_user inp now s = create_user inp now s"
proof (intro conjI impI)
  assume "\<exists>u\<in>set (user_table s). u_email u = ui_email inp"
  then obtain v where "find (\<lambda>u. u_email u = ui_email inp) (user_table s) = Some v"
    by (cases "find (\<lambda>u. u_email u = ui_email inp) (user_table s)") (auto simp: find_None_iff)
  then show "create_user inp now s = (Inl DuplicateEmail, s)"
    by (simp add: create_user_def first_user_with_email_def DuplicateEmail_def)
next
  assume a: "\<not> (\<exists>u\<in>set (user_table s). u_email u = ui_email inp)"
  then have f: "find (\<lambda>u. u_email u = ui_email inp) (user_table s) = None"
    by (simp add: find_None_iff)
  from a have l: "\<not> list_ex (\<lambda>v. u_email v = ui_email inp) (user_table s)"
    by (simp add: list_ex_iff)
  from f l show "create_user inp now s =
        (Inr \<lparr>ut_id = next_rowid (map u_id (user_table s)), ut_name = ui_name inp,
              ut_email = ui_email inp, ut_age = ui_age inp, ut_created_at = isoformat now\<rparr>,
         s\<lparr>user_table := user_table s @
              [\<lparr>u_id = next_rowid (map u_id (user_table s)), u_name = ui_name inp,
                u_email = ui_email inp, u_age = ui_age inp, u_created_at = now\<rparr>]\<rparr>)"
    by (simp add: create_user_def first_user_with_email_def commit_new_user_def to_UserType_def Let_def)
next
  show "next_rowid (map u_id (user_table s)) \<notin> u_id ` set (user_table s)"
    using next_rowid_fresh [of "map u_id (user_table s)"] by simp
next
  show "UserMutation_create_user inp now s = create_user inp now s"
    by (simp add: UserMutation_create_user_def create_user_def)
qed

theorem create_user_duplicate_or_insert_witness:
  "create_user \<lparr>ui_name = ''Al'', ui_email = ''alice@example.com'', ui_age = None\<rparr> t0 seeded
     = (Inl DuplicateEmail, seeded) \<and>
   create_user \<lparr>ui_name = ''Dan'', ui_email = ''dan@example.com'', ui_age = Some 20\<rparr> t0 seeded
     = (Inr \<lparr>ut_id = 3, ut_name = ''Dan'', ut_email = ''dan@example.com'', ut_age = Some 20,
             ut_created_at = ''2024-05-17T09:30:00''\<rparr>,
        seeded\<lparr>user_table := [alice, bob,
          \<lparr>u_id = 3, u_name = ''Dan'', u_email = ''dan@example.com'', u_age = Some 20, u_created_at = t0\<rparr>]\<rparr>)"
proof -
  have h1: "\<exists>u\<in>set (user_table seeded). u_email u = ui_email \<lparr>ui_name = ''Al'', ui_email = ''alice@example.com'', ui_age = None\<rparr>"
    by (simp add: seed_defs)
  have h2: "\<not> (\<exists>u\<in>set (user_table seeded). u_email u = ui_email \<lparr>ui_name = ''Dan'', ui_email = ''dan@example.com'', ui_age = Some 20\<rparr>)"
    by (simp add: seed_defs)
  have n: "next_rowid [u_id alice, u_id bob] = 3"
    by (simp add: seed_defs next_rowid_def)
  have u: "user_table seeded = [alice, bob]" by (simp add: seeded_def)
  from create_user_duplicate_or_insert [of seeded "\<lparr>ui_name = ''Al'', ui_email = ''alice@example.com'', ui_age = None\<rparr>" t0] h1
  have a: "create_user \<lparr>ui_name = ''Al'', ui_email = ''alice@example.com'', ui_age = None\<rparr> t0 seeded
     = (Inl DuplicateEmail, seeded)" by blast
  from create_user_duplicate_or_insert [of seeded "\<lparr>ui_name = ''Dan'', ui_email = ''dan@example.com'', ui_age = Some 20\<rparr>" t0] h2
  have b: "create_user \<lparr>ui_name = ''Dan'', ui_email = ''dan@example.com'', ui_age = Some 20\<rparr> t0 seeded
     = (Inr \<lparr>ut_id = 3, ut_name = ''Dan'', ut_email = ''dan@example.com'', ut_age = Some 20,
             ut_created_at = ''2024-05-17T09:30:00''\<rparr>,
        seeded\<lparr>user_table := [alice, bob,
          \<lparr>u_id = 3, u_name = ''Dan'', u_email = ''dan@example.com'', u_age = Some 20, u_created_at = t0\<rparr>]\<rparr>)"
    by (simp add: n u isoformat_t0)
  from a b show ?thesis by simp
qed


section \<open>Creating a post\<close>

text \<open>
  C6: when author_id names no stored user, createPost fails with AuthorNotFound and the
  store is unchanged; when it names one, the post is appended with a fresh key and
  returned with every field of that user embedded as its author.
\<close>

theorem create_post_author_check:
  "(pi_author_id inp \<notin> u_id ` set (user_table s) \<longrightarrow>
      create_post inp now s = (Inl AuthorNotFound, s)) \<and>
   (pi_author_id inp \<in> u_id ` set (user_table s) \<longrightarrow>
      (\<exists>a. session_get_user s (pi_author_id inp) = Some a \<and> a \<in> set (user_table s) \<and>
           u_id a = pi_author_id inp \<and>
           create_post inp now s =
             (Inr \<lparr>pt_id = next_rowid (map p_id (post_table s)), pt_title = pi_title inp,
                   pt_content = pi_content inp, pt_created_at = isoformat now,
                   pt_author = \<lparr>ut_id = pi_author_id inp, ut_name = u_name a,
                                ut_email = u_email a, ut_age = u_age a,
                                ut_created_at = isoformat (u_created_at a)\<rparr>\<rparr>,
              s\<lparr>post_table := post_table s @
                   [\<lparr>p_id = next_rowid (map p_id (post_table s)), p_title = pi_title inp,
                     p_content = pi_content inp, p_author_id = pi_author_id inp,
                     p_created_at = now\<rparr>]\<rparr>)) \<and>
      next_rowid (map p_id (post_table s)) \<notin> p_id ` set (post_table s)) \<and>
   PostMutation_create_post inp now s = create_post inp now s"
proof (intro conjI impI)
  assume "pi_author_id inp \<notin> u_id ` set (user_table s)"
  then have "find (\<lambda>u. u_id u = pi_author_id inp) (user_table s) = None"
    by (simp add: find_key_None)
  then show "create_post inp now s = (Inl AuthorNotFound, s)"
    by (simp add: create_post_def session_get_user_def AuthorNotFound_def)
next
  assume "pi_author_id inp \<in> u_id ` set (user_table s)"
  then obtain a where a: "find (\<lambda>u. u_id u = pi_author_id inp) (user_table s) = Some a"
    by (cases "find (\<lambda>u. u_id u = pi_author_id inp) (user_table s)") (auto simp: find_key_None)
  then have m: "a \<in> set (user_table s)" "u_id a = pi_author_id inp"
    by (auto dest: find_key_Some)
  let ?k = "next_rowid (map p_id (post_table s))"
  have fresh: "find (\<lambda>p. p_id p = ?k) (post_table s) = None"
    using next_rowid_fresh [of "map p_id (post_table s)"] by (simp add: find_key_None)
  have "create_post inp now s =
             (Inr \<lparr>pt_id = ?k, pt_title = pi_title inp,
                   pt_content = pi_content inp, pt_created_at = isoformat now,
                   pt_author = \<lparr>ut_id = pi_author_id inp, ut_name = u_name a,
                                ut_email = u_email a, ut_age = u_age a,
                                ut_created_at = isoformat (u_created_at a)\<rparr>\<rparr>,
              s\<lparr>post_table := post_table s @
                   [\<lparr>p_id = ?k, p_title = pi_title inp,
                     p_content = pi_content inp, p_author_id = pi_author_id inp,
                     p_created_at = now\<rparr>]\<rparr>)"
    using a fresh m(2)
    by (simp add: create_post_def session_get_user_def session_get_post_def commit_new_post_def
        author_def Let_def find_append_key to_UserType_def)
  with a m show "\<exists>a. session_get_user s (pi_author_id inp) = Some a \<and> a \<in> set (user_table s) \<and>
           u_id a = pi_author_id inp \<and>
           create_post inp now s =
             (Inr \<lparr>pt_id = next_rowid (map p_id (post_table s)), pt_title = pi_title inp,
                   pt_content = pi_content inp, pt_created_at = isoformat now,
                   pt_author = \<lparr>ut_id = pi_author_id inp, ut_name = u_name a,
                                ut_email = u_email a, ut_age = u_age a,
                                ut_created_at = isoformat (u_created_at a)\<rparr>\<rparr>,
              s\<lparr>post_table := post_table s @
                   [\<lparr>p_id = next_rowid (map p_id (post_table s)), p_title = pi_title inp,
                     p_content = pi_content inp, p_author_id = pi_author_id inp,
                     p_created_at = now\<rparr>]\<rparr>)"
    by (simp add: session_get_user_def)
next
  show "next_rowid (map p_id (post_table s)) \<notin> p_id ` set (post_table s)"
    using next_rowid_fresh [of "map p_id (post_table s)"] by simp
next
  show "PostMutation_create_post inp now s = create_post inp now s"
    by (simp add: PostMutation_create_post_def create_post_def)
qed

theorem create_post_author_check_witness:
  "create_post \<lparr>pi_title = ''T'', pi_content = ''C'', pi_author_id = 7\<rparr> t0 seeded
     = (Inl AuthorNotFound, seeded) \<and>
   create_post \<lparr>pi_title = ''T'', pi_content = ''C'', pi_author_id = 2\<rparr> t0 seeded
     = (Inr \<lparr>pt_id = 6, pt_title = ''T'', pt_content = ''C'',
             pt_created_at = ''2024-05-17T09:30:00'',
             pt_author = \<lparr>ut_id = 2, ut_name = ''Bob'', ut_email = ''bob@example.com'',
                          ut_age = None, ut_created_at = ''2024-05-17T09:30:00''\<rparr>\<rparr>,
        seeded\<lparr>post_table := post_table seeded @
          [\<lparr>p_id = 6, p_title = ''T'', p_content = ''C'', p_author_id = 2, p_created_at = t0\<rparr>]\<rparr>)"
proof -
  have h1: "pi_author_id \<lparr>pi_title = ''T'', pi_content = ''C'', pi_author_id = 7\<rparr>
              \<notin> u_id ` set (user_table seeded)"
    by (simp add: seed_defs)
  have h2: "pi_author_id \<lparr>pi_title = ''T'', pi_content = ''C'', pi_author_id = 2\<rparr>
              \<in> u_id ` set (user_table seeded)"
    by (simp add: seed_defs)
  have n: "next_rowid (map p_id (post_table seeded)) = 6"
    by (simp add: seed_defs next_rowid_def)
  have g: "session_get_user seeded 2 = Some bob"
    by (simp add: session_get_user_def seed_defs)
  have f: "u_name bob = ''Bob''" "u_email bob = ''bob@example.com''" "u_age bob = None"
    "isoformat (u_created_at bob) = ''2024-05-17T09:30:00''"
    by (simp_all add: bob_def isoformat_t0)
  from create_post_author_check [of "\<lparr>pi_title = ''T'', pi_content = ''C'', pi_author_id = 7\<rparr>" seeded t0] h1
  have a: "create_post \<lparr>pi_title = ''T'', pi_content = ''C'', pi_author_id = 7\<rparr> t0 seeded
     = (Inl AuthorNotFound, seeded)" by blast
  from create_post_author_check [of "\<lparr>pi_title = ''T'', pi_content = ''C'', pi_author_id = 2\<rparr>" seeded t0] h2
  have b: "create_post \<lparr>pi_title = ''T'', pi_content = ''C'', pi_author_id = 2\<rparr> t0 seeded
     = (Inr \<lparr>pt_id = 6, pt_title = ''T'', pt_content = ''C'',
             pt_created_at = ''2024-05-17T09:30:00'',
             pt_author = \<lparr>ut_id = 2, ut_name = ''Bob'', ut_email = ''bob@example.com'',
                          ut_age = None, ut_created_at = ''2024-05-17T09:30:00''\<rparr>\<rparr>,
        seeded\<lparr>post_table := post_table seeded @
          [\<lparr>p_id = 6, p_title = ''T'', p_content = ''C'', p_author_id = 2, p_created_at = t0\<rparr>]\<rparr>)"
    by (auto simp: n isoformat_t0 g f)
  from a b show ?thesis by simp
qed

section \<open>Queries and the store\<close>

text \<open>
  C10: every query resolver returns the store it was given.
\<close>

theorem queries_leave_store_unchanged:
  "snd (hello s) = s \<and> snd (users limit offset s) = s \<and> snd (user i s) = s \<and>
   snd (posts limit offset s) = s \<and> snd (post i s) = s \<and>
   snd (UserResolver_hello s) = s \<and> snd (UserResolver_users limit offset s) = s \<and>
   snd (UserResolver_user i s) = s \<and> snd (PostResolver_posts limit offset s) = s"
  by (simp add: hello_def users_def user_def posts_def post_def UserResolver_hello_def
      UserResolver_users_def UserResolver_user_def PostResolver_posts_def split: option.split)

section \<open>The title returned by \<^verbatim>\<open>update_post\<close>\<close>

text \<open>
  C1 at a failing input: post 1 of the seeded store has the title ``Title'' and the
  content ``Body''. updatePost with the new title ``New title'' stores that title, and
  returns a Post whose title is ``Body''.
\<close>

theorem update_post_returns_content_as_title:
  "\<exists>r s'. update_post 1 (Some ''New title'') None seeded = (Inr r, s') \<and>
      pt_title r = ''Body'' \<and>
      map_option p_title (session_get_post s' 1) = Some ''New title'' \<and>
      map_option p_title (session_get_post seeded 1) = Some ''Title''"
  by (simp add: update_post_def session_get_post_def session_get_user_def author_def
      commit_post_def seed_defs)


section \<open>Deleting a user\<close>

lemma get_user_None: "session_get_user s i = None \<longleftrightarrow> i \<notin> u_id ` set (user_table s)"
  by (simp add: session_get_user_def find_key_None)

lemma get_user_Some: "session_get_user s i = Some u \<Longrightarrow> u \<in> set (user_table s) \<and> u_id u = i"
  unfolding session_get_user_def by (rule find_key_Some)

lemma get_post_None: "session_get_post s i = None \<longleftrightarrow> i \<notin> p_id ` set (post_table s)"
  by (simp add: session_get_post_def find_key_None)

lemma get_post_Some: "session_get_post s i = Some p \<Longrightarrow> p \<in> set (post_table s) \<and> p_id p = i"
  unfolding session_get_post_def by (rule find_key_Some)

lemma find_filter_other: "find (\<lambda>x. f x = i) (filter (\<lambda>x. f x \<noteq> i) xs) = None"
  by (induction xs) auto

lemma owns_posts_iff: "list_ex (\<lambda>p. p_author_id p = i) ps \<longleftrightarrow> i \<in> p_author_id ` set ps"
  by (auto simp: list_ex_iff)

text \<open>
  C7, amended: deleteUser fails with NotFound exactly when the id names no stored user.
  A stored user who is the author of no post is removed and true is returned; for a
  stored user who still is the author of a post the store rejects the deletion and
  nothing changes. The user query returns null for an id that is not stored, in
  particular after a deleteUser that returned true.
\<close>

theorem delete_user_cases:
  "(fst (delete_user i s) = Inl UserNotFound \<longleftrightarrow> i \<notin> u_id ` set (user_table s)) \<and>
   (i \<in> u_id ` set (user_table s) \<and> i \<notin> p_author_id ` set (post_table s) \<longrightarrow>
      delete_user i s = (Inr True, s\<lparr>user_table := filter (\<lambda>v. u_id v \<noteq> i) (user_table s)\<rparr>)) \<and>
   (i \<in> u_id ` set (user_table s) \<and> i \<in> p_author_id ` set (post_table s) \<longrightarrow>
      delete_user i s = (Inl IntegrityError, s)) \<and>
   (i \<notin> u_id ` set (user_table s) \<longrightarrow> user i s = (Inr None, s)) \<and>
   (\<forall>s'. delete_user i s = (Inr True, s') \<longrightarrow> user i s' = (Inr None, s')) \<and>
   UserMutation_delete_user i s = delete_user i s"
proof -
  have nf: "fst (delete_user i s) = Inl UserNotFound \<longleftrightarrow> i \<notin> u_id ` set (user_table s)"
  proof (cases "session_get_user s i")
    case None
    then have "i \<notin> u_id ` set (user_table s)" by (simp add: get_user_None)
    with None show ?thesis by (simp add: delete_user_def UserNotFound_def)
  next
    case (Some u)
    then have "i \<in> u_id ` set (user_table s)" using get_user_None [of s i] by auto
    with Some show ?thesis
      by (simp add: delete_user_def UserNotFound_def commit_delete_user_def)
  qed
  have del: "delete_user i s = (Inr True, s\<lparr>user_table := filter (\<lambda>v. u_id v \<noteq> i) (user_table s)\<rparr>)"
    if "i \<in> u_id ` set (user_table s)" "i \<notin> p_author_id ` set (post_table s)"
  proof -
    from that(1) obtain u where u: "session_get_user s i = Some u"
      using get_user_None [of s i] by (cases "session_get_user s i") auto
    then have "u_id u = i" by (simp add: get_user_Some)
    with u that(2) show ?thesis
      by (simp add: delete_user_def commit_delete_user_def owns_posts_iff)
  qed
  have rej: "delete_user i s = (Inl IntegrityError, s)"
    if "i \<in> u_id ` set (user_table s)" "i \<in> p_author_id ` set (post_table s)"
  proof -
    from that(1) obtain u where u: "session_get_user s i = Some u"
      using get_user_None [of s i] by (cases "session_get_user s i") auto
    then have "u_id u = i" by (simp add: get_user_Some)
    with u that(2) show ?thesis
      by (simp add: delete_user_def commit_delete_user_def owns_posts_iff)
  qed
  have absent: "user i s = (Inr None, s)" if "i \<notin> u_id ` set (user_table s)"
    using that by (simp add: user_def get_user_None [symmetric])
  have after: "user i s' = (Inr None, s')" if "delete_user i s = (Inr True, s')" for s'
  proof (cases "session_get_user s i")
    case None
    with that show ?thesis by (simp add: delete_user_def)
  next
    case (Some u)
    then have k: "u_id u = i" by (simp add: get_user_Some)
    from that Some have "s' = s\<lparr>user_table := filter (\<lambda>v. u_id v \<noteq> i) (user_table s)\<rparr>"
      by (auto simp: delete_user_def commit_delete_user_def k split: if_splits)
    then have "session_get_user s' i = None"
      by (simp add: session_get_user_def find_filter_other)
    then show ?thesis by (simp add: user_def)
  qed
  have same: "UserMutation_delete_user i s = delete_user i s"
    by (simp add: UserMutation_delete_user_def delete_user_def)
  from nf del rej absent after same show ?thesis by blast
qed

theorem delete_user_cases_witness:
  "fst (delete_user 7 seeded3) = Inl UserNotFound \<and>
   delete_user 3 seeded3 = (Inr True, seeded3\<lparr>user_table := [alice, bob]\<rparr>) \<and>
   delete_user 1 seeded3 = (Inl IntegrityError, seeded3) \<and>
   user 7 seeded3 = (Inr None, seeded3) \<and>
   user 3 (seeded3\<lparr>user_table := [alice, bob]\<rparr>) = (Inr None, seeded3\<lparr>user_table := [alice, bob]\<rparr>)"
proof -
  have h7: "7 \<notin> u_id ` set (user_table seeded3)" by (simp add: seed_defs)
  have h3: "3 \<in> u_id ` set (user_table seeded3) \<and> 3 \<notin> p_author_id ` set (post_table seeded3)"
    by (simp add: seed_defs)
  have h1: "1 \<in> u_id ` set (user_table seeded3) \<and> 1 \<in> p_author_id ` set (post_table seeded3)"
    by (simp add: seed_defs)
  have f: "s\<lparr>user_table := filter (\<lambda>v. u_id v \<noteq> 3) (user_table seeded3)\<rparr> = s\<lparr>user_table := [alice, bob]\<rparr>" for s :: store
    by (simp add: seed_defs)
  from delete_user_cases [of 7 seeded3] h7
  have a: "fst (delete_user 7 seeded3) = Inl UserNotFound" "user 7 seeded3 = (Inr None, seeded3)"
    by blast+
  from delete_user_cases [of 3 seeded3] h3
  have b: "delete_user 3 seeded3 = (Inr True, seeded3\<lparr>user_table := [alice, bob]\<rparr>)"
    by (simp only: f) blast
  from delete_user_cases [of 3 seeded3] b
  have c: "user 3 (seeded3\<lparr>user_table := [alice, bob]\<rparr>) = (Inr None, seeded3\<lparr>user_table := [alice, bob]\<rparr>)"
    by blast
  from delete_user_cases [of 1 seeded3] h1
  have d: "delete_user 1 seeded3 = (Inl IntegrityError, seeded3)" by blast
  from a b c d show ?thesis by simp
qed

text \<open>
  User 1 of the seeded store is the author of posts: deleteUser does not return true
  and the user is still stored afterwards.
\<close>

theorem delete_user_with_posts_counterexample:
  "1 \<in> u_id ` set (user_table seeded) \<and>
   fst (delete_user 1 seeded) = Inl IntegrityError \<and>
   session_get_user (snd (delete_user 1 seeded)) 1 = Some alice"
  by (simp add: delete_user_def commit_delete_user_def session_get_user_def seed_defs)


section \<open>Updating a user\<close>

lemma find_replace_key:
  "f y = i \<Longrightarrow>
   find (\<lambda>x. f x = j) (map (\<lambda>x. if f x = i then y else x) xs) =
     (if j = i then (if i \<in> f ` set xs then Some y else None) else find (\<lambda>x. f x = j) xs)"
  by (induction xs) auto

lemma email_taken_iff:
  "list_ex (\<lambda>v. u_id v \<noteq> i \<and> u_email v = e) us \<longleftrightarrow> (\<exists>v\<in>set us. u_id v \<noteq> i \<and> u_email v = e)"
  by (simp add: list_ex_iff)

lemma distinct_email_same_user:
  "distinct (map u_email us) \<Longrightarrow> u \<in> set us \<Longrightarrow> v \<in> set us \<Longrightarrow> u_email v = u_email u \<Longrightarrow> v = u"
  by (auto simp: distinct_map dest: inj_onD)

text \<open>The two outcomes of \<^verbatim>\<open>update_user\<close> for a stored row \<open>u\<close>.\<close>

lemma update_user_rejected:
  assumes "session_get_user s i = Some u"
    and "\<exists>v\<in>set (user_table s). u_id v \<noteq> i \<and>
           u_email v = (case email of None \<Rightarrow> u_email u | Some e \<Rightarrow> e)"
  shows "update_user i name email age s = (Inl IntegrityError, s)"
proof -
  from assms(1) have k: "u_id u = i" by (simp add: get_user_Some)
  show ?thesis
    using assms k
    by (cases name; cases email; cases age)
       (simp_all add: update_user_def commit_user_def Let_def email_taken_iff)
qed

lemma update_user_committed:
  assumes "session_get_user s i = Some u"
    and "\<not> (\<exists>v\<in>set (user_table s). u_id v \<noteq> i \<and>
           u_email v = (case email of None \<Rightarrow> u_email u | Some e \<Rightarrow> e))"
    and "w = u\<lparr>u_name := (case name of None \<Rightarrow> u_name u | Some n \<Rightarrow> n),
               u_email := (case email of None \<Rightarrow> u_email u | Some e \<Rightarrow> e),
               u_age := (case age of None \<Rightarrow> u_age u | Some a \<Rightarrow> Some a)\<rparr>"
  shows "update_user i name email age s =
     (Inr (to_UserType w),
      s\<lparr>user_table := map (\<lambda>v. if u_id v = i then w else v) (user_table s)\<rparr>)"
proof -
  from assms(1) have k: "u_id u = i" by (simp add: get_user_Some)
  show ?thesis
    using assms k
    by (cases name; cases email; cases age)
       (simp_all add: update_user_def commit_user_def Let_def email_taken_iff)
qed

lemma update_user_absent:
  "session_get_user s i = None \<Longrightarrow> update_user i name email age s = (Inl UserNotFound, s)"
  by (simp add: update_user_def UserNotFound_def)

lemma UserMutation_update_user_same:
  "UserMutation_update_user i \<lparr>uu_name = name, uu_email = email, uu_age = age\<rparr> s
     = update_user i name email age s"
  by (cases "session_get_user s i") (simp_all add: UserMutation_update_user_def update_user_def)

lemma get_user_after_replace:
  "u_id u' = i \<Longrightarrow> i \<in> u_id ` set (user_table s) \<Longrightarrow>
   session_get_user (s\<lparr>user_table := map (\<lambda>v. if u_id v = i then u' else v) (user_table s)\<rparr>) j
     = (if j = i then Some u' else session_get_user s j)"
  by (simp add: session_get_user_def find_replace_key)

text \<open>
  C3, amended: for a stored user of a well-formed store, an updateUser whose email, if
  one is supplied, is not the email of a different stored user overwrites exactly the
  fields supplied with a value and leaves the other fields, the other users and the
  posts as they were; with only age supplied it always succeeds, and name and email keep
  their values; after every updateUser, accepted or rejected, the user's id and
  created_at are what they were. Both resolver classes do the same.
\<close>

theorem update_user_partial:
  assumes wf: "wf_store s"
    and stored: "session_get_user s i = Some u"
  shows
   "((\<forall>v\<in>set (user_table s). u_id v \<noteq> i \<longrightarrow> Some (u_email v) \<noteq> email) \<longrightarrow>
       (\<exists>s'. update_user i name email age s =
              (Inr (to_UserType
                 (u\<lparr>u_name := (case name of None \<Rightarrow> u_name u | Some n \<Rightarrow> n),
                    u_email := (case email of None \<Rightarrow> u_email u | Some e \<Rightarrow> e),
                    u_age := (case age of None \<Rightarrow> u_age u | Some a \<Rightarrow> Some a)\<rparr>)), s') \<and>
            session_get_user s' i =
              Some (u\<lparr>u_name := (case name of None \<Rightarrow> u_name u | Some n \<Rightarrow> n),
                      u_email := (case email of None \<Rightarrow> u_email u | Some e \<Rightarrow> e),
                      u_age := (case age of None \<Rightarrow> u_age u | Some a \<Rightarrow> Some a)\<rparr>) \<and>
            (\<forall>j. j \<noteq> i \<longrightarrow> session_get_user s' j = session_get_user s j) \<and>
            post_table s' = post_table s)) \<and>
    (\<exists>s'. update_user i None None (Some a) s = (Inr (to_UserType (u\<lparr>u_age := Some a\<rparr>)), s') \<and>
          session_get_user s' i = Some (u\<lparr>u_age := Some a\<rparr>)) \<and>
    (\<exists>u'. session_get_user (snd (update_user i name email age s)) i = Some u' \<and>
          u_id u' = u_id u \<and> u_created_at u' = u_created_at u) \<and>
    UserMutation_update_user i \<lparr>uu_name = name, uu_email = email, uu_age = age\<rparr> s
      = update_user i name email age s"
proof -
  let ?u' = "u\<lparr>u_name := (case name of None \<Rightarrow> u_name u | Some n \<Rightarrow> n),
               u_email := (case email of None \<Rightarrow> u_email u | Some e \<Rightarrow> e),
               u_age := (case age of None \<Rightarrow> u_age u | Some a \<Rightarrow> Some a)\<rparr>"
  let ?taken = "\<lambda>e. \<exists>v\<in>set (user_table s). u_id v \<noteq> i \<and> u_email v = e"
  from stored have k: "u_id u = i" and m: "u \<in> set (user_table s)"
    by (simp_all add: get_user_Some)
  from m k have inids: "i \<in> u_id ` set (user_table s)" by auto
  from wf have d: "distinct (map u_email (user_table s))" by (simp add: wf_store_def)
  have own: "\<not> ?taken (u_email u)"
    using distinct_email_same_user [OF d m] k by auto
  have after: "session_get_user
        (s\<lparr>user_table := map (\<lambda>v. if u_id v = i then w else v) (user_table s)\<rparr>) j
        = (if j = i then Some w else session_get_user s j)" if "u_id w = i" for w j
    using get_user_after_replace [of w i s j] that inids by simp
  have ok: "\<exists>s'. update_user i name email age s = (Inr (to_UserType ?u'), s') \<and>
            session_get_user s' i = Some ?u' \<and>
            (\<forall>j. j \<noteq> i \<longrightarrow> session_get_user s' j = session_get_user s j) \<and>
            post_table s' = post_table s"
    if free: "\<forall>v\<in>set (user_table s). u_id v \<noteq> i \<longrightarrow> Some (u_email v) \<noteq> email"
  proof -
    have "\<not> ?taken (case email of None \<Rightarrow> u_email u | Some e \<Rightarrow> e)"
    proof (cases email)
      case None
      with own show ?thesis by simp
    next
      case (Some e)
      with free show ?thesis by auto
    qed
    from update_user_committed [OF stored this refl, where name = name and age = age] after [of ?u'] k
    show ?thesis by simp
  qed
  have age_only: "\<exists>s'. update_user i None None (Some a) s = (Inr (to_UserType (u\<lparr>u_age := Some a\<rparr>)), s') \<and>
          session_get_user s' i = Some (u\<lparr>u_age := Some a\<rparr>)"
  proof -
    from own have "\<not> ?taken (case None of None \<Rightarrow> u_email u | Some e \<Rightarrow> e)" by simp
    from update_user_committed [OF stored this, where w = "u\<lparr>u_age := Some a\<rparr>"
        and name = None and age = "Some a"]
      after [of "u\<lparr>u_age := Some a\<rparr>" i] k
    show ?thesis by simp
  qed
  have ident: "\<exists>u'. session_get_user (snd (update_user i name email age s)) i = Some u' \<and>
          u_id u' = u_id u \<and> u_created_at u' = u_created_at u"
  proof (cases "?taken (case email of None \<Rightarrow> u_email u | Some e \<Rightarrow> e)")
    case True
    from update_user_rejected [OF stored True, where name = name and age = age] stored show ?thesis by simp
  next
    case False
    from update_user_committed [OF stored False refl, where name = name and age = age] after [of ?u' i] k
    show ?thesis by simp
  qed
  from ok age_only ident UserMutation_update_user_same [of i name email age s]
  show ?thesis by blast
qed

theorem update_user_partial_witness:
  "\<exists>s'. update_user 2 (Some ''Robert'') None (Some 44) seeded =
     (Inr \<lparr>ut_id = 2, ut_name = ''Robert'', ut_email = ''bob@example.com'', ut_age = Some 44,
           ut_created_at = ''2024-05-17T09:30:00''\<rparr>, s') \<and>
     session_get_user s' 2 = Some (bob\<lparr>u_name := ''Robert'', u_age := Some 44\<rparr>) \<and>
     session_get_user s' 1 = Some alice \<and> post_table s' = post_table seeded"
proof -
  have w: "wf_store seeded" by (simp add: wf_store_def seed_defs)
  have g: "session_get_user seeded 2 = Some bob" by (simp add: session_get_user_def seed_defs)
  have g1: "session_get_user seeded 1 = Some alice" by (simp add: session_get_user_def seed_defs)
  have f: "\<forall>v\<in>set (user_table seeded). u_id v \<noteq> 2 \<longrightarrow> Some (u_email v) \<noteq> None" by simp
  have t: "to_UserType (bob\<lparr>u_name := ''Robert'', u_email := u_email bob, u_age := Some 44\<rparr>) =
     \<lparr>ut_id = 2, ut_name = ''Robert'', ut_email = ''bob@example.com'', ut_age = Some 44,
           ut_created_at = ''2024-05-17T09:30:00''\<rparr>"
    by (simp add: to_UserType_def bob_def isoformat_t0)
  from update_user_partial [OF w g, where name = "Some ''Robert''" and email = None
      and age = "Some 44" and a = 44] f
  obtain s' where r: "update_user 2 (Some ''Robert'') None (Some 44) seeded =
      (Inr (to_UserType (bob\<lparr>u_name := ''Robert'', u_email := u_email bob, u_age := Some 44\<rparr>)), s')"
    and g': "session_get_user s' 2 = Some (bob\<lparr>u_name := ''Robert'', u_email := u_email bob, u_age := Some 44\<rparr>)"
    and o: "\<forall>j. j \<noteq> 2 \<longrightarrow> session_get_user s' j = session_get_user seeded j"
    and p: "post_table s' = post_table seeded"
    by auto
  from o g1 have "session_get_user s' 1 = Some alice" by simp
  with r g' p t show ?thesis by simp
qed

text \<open>
  In the seeded store the email of user 1 is taken: updateUser for user 2 with a new
  name and that email leaves the stored name of user 2 as it was.
\<close>

theorem update_user_partial_counterexample:
  "session_get_user seeded 2 = Some bob \<and>
   fst (update_user 2 (Some ''Robert'') (Some ''alice@example.com'') None seeded) = Inl IntegrityError \<and>
   map_option u_name
     (session_get_user (snd (update_user 2 (Some ''Robert'') (Some ''alice@example.com'') None seeded)) 2)
     = Some ''Bob''"
  by (simp add: update_user_def commit_user_def session_get_user_def seed_defs)


text \<open>
  C8, amended: updateUser never fails with DuplicateEmail, for any store and input. For
  a stored user, an email that a different stored user has makes the commit fail with
  the store's integrity error and leaves the store unchanged; any other email is
  written to the user's row. Both resolver classes do the same.
\<close>

theorem update_user_email_unchecked:
  "fst (update_user i name email age s) \<noteq> Inl DuplicateEmail \<and>
   (\<forall>u. session_get_user s i = Some u \<and>
        (\<exists>v\<in>set (user_table s). u_id v \<noteq> i \<and> u_email v = e) \<longrightarrow>
        update_user i name (Some e) age s = (Inl IntegrityError, s)) \<and>
   (\<forall>u. session_get_user s i = Some u \<and>
        \<not> (\<exists>v\<in>set (user_table s). u_id v \<noteq> i \<and> u_email v = e) \<longrightarrow>
        (\<exists>r s'. update_user i name (Some e) age s = (Inr r, s') \<and> ut_email r = e \<and>
                map_option u_email (session_get_user s' i) = Some e)) \<and>
   UserMutation_update_user i \<lparr>uu_name = name, uu_email = email, uu_age = age\<rparr> s
     = update_user i name email age s"
proof -
  have nodup: "fst (update_user i name email age s) \<noteq> Inl DuplicateEmail"
  proof (cases "session_get_user s i")
    case None
    then show ?thesis by (simp add: update_user_absent UserNotFound_def DuplicateEmail_def)
  next
    case (Some u)
    show ?thesis
    proof (cases "\<exists>v\<in>set (user_table s). u_id v \<noteq> i \<and>
                    u_email v = (case email of None \<Rightarrow> u_email u | Some e \<Rightarrow> e)")
      case True
      from update_user_rejected [OF Some True, where name = name and age = age]
      show ?thesis by (simp add: DuplicateEmail_def)
    next
      case False
      from update_user_committed [OF Some False refl, where name = name and age = age]
      show ?thesis by simp
    qed
  qed
  have rej: "update_user i name (Some e) age s = (Inl IntegrityError, s)"
    if "session_get_user s i = Some u" "\<exists>v\<in>set (user_table s). u_id v \<noteq> i \<and> u_email v = e" for u
    using update_user_rejected [OF that(1), where email = "Some e" and name = name and age = age]
      that(2) by simp
  have acc: "\<exists>r s'. update_user i name (Some e) age s = (Inr r, s') \<and> ut_email r = e \<and>
                map_option u_email (session_get_user s' i) = Some e"
    if st: "session_get_user s i = Some u"
      and fr: "\<not> (\<exists>v\<in>set (user_table s). u_id v \<noteq> i \<and> u_email v = e)" for u
  proof -
    let ?w = "u\<lparr>u_name := (case name of None \<Rightarrow> u_name u | Some n \<Rightarrow> n),
                u_email := (case Some e of None \<Rightarrow> u_email u | Some e \<Rightarrow> e),
                u_age := (case age of None \<Rightarrow> u_age u | Some a \<Rightarrow> Some a)\<rparr>"
    from st have k: "u_id u = i" and m: "u \<in> set (user_table s)"
      by (simp_all add: get_user_Some)
    from m k have inids: "i \<in> u_id ` set (user_table s)" by auto
    from fr have "\<not> (\<exists>v\<in>set (user_table s). u_id v \<noteq> i \<and>
           u_email v = (case Some e of None \<Rightarrow> u_email u | Some e \<Rightarrow> e))" by simp
    from update_user_committed [OF st this refl, where name = name and age = age]
      get_user_after_replace [of ?w i s i] k inids
    show ?thesis by (simp add: to_UserType_def)
  qed
  from nodup rej acc UserMutation_update_user_same [of i name email age s]
  show ?thesis by blast
qed

theorem update_user_email_unchecked_witness:
  "update_user 2 None (Some ''alice@example.com'') None seeded = (Inl IntegrityError, seeded) \<and>
   (\<exists>r s'. update_user 2 None (Some ''robert@example.com'') None seeded = (Inr r, s') \<and>
      ut_email r = ''robert@example.com'' \<and>
      map_option u_email (session_get_user s' 2) = Some ''robert@example.com'')"
proof -
  have g: "session_get_user seeded 2 = Some bob" by (simp add: session_get_user_def seed_defs)
  have h1: "\<exists>v\<in>set (user_table seeded). u_id v \<noteq> 2 \<and> u_email v = ''alice@example.com''"
    by (simp add: seed_defs)
  have h2: "\<not> (\<exists>v\<in>set (user_table seeded). u_id v \<noteq> 2 \<and> u_email v = ''robert@example.com'')"
    by (simp add: seed_defs)
  from update_user_email_unchecked [where i = 2 and s = seeded and e = "''alice@example.com''"
      and name = None and age = None] g h1
  have a: "update_user 2 None (Some ''alice@example.com'') None seeded = (Inl IntegrityError, seeded)"
    by blast
  from update_user_email_unchecked [where i = 2 and s = seeded and e = "''robert@example.com''"
      and name = None and age = None] g h2
  have b: "\<exists>r s'. update_user 2 None (Some ''robert@example.com'') None seeded = (Inr r, s') \<and>
      ut_email r = ''robert@example.com'' \<and>
      map_option u_email (session_get_user s' 2) = Some ''robert@example.com''"
    by blast
  from a b show ?thesis by simp
qed

text \<open>
  In the seeded store, updateUser for user 2 with the email of user 1 does not overwrite
  the email of user 2.
\<close>

theorem update_user_email_unchecked_counterexample:
  "session_get_user seeded 2 = Some bob \<and>
   map_option u_email
     (session_get_user (snd (update_user 2 None (Some ''alice@example.com'') None seeded)) 2)
     = Some ''bob@example.com''"
  by (simp add: update_user_def commit_user_def session_get_user_def seed_defs)


section \<open>Null arguments and sequences of updates\<close>

lemma update_user_outcomes:
  assumes "session_get_user s j = Some v"
  shows "snd (update_user j name email age s) = s \<or>
     snd (update_user j name email age s) =
       s\<lparr>user_table := map (\<lambda>x. if u_id x = j
            then v\<lparr>u_name := (case name of None \<Rightarrow> u_name v | Some n \<Rightarrow> n),
                   u_email := (case email of None \<Rightarrow> u_email v | Some e \<Rightarrow> e),
                   u_age := (case age of None \<Rightarrow> u_age v | Some a \<Rightarrow> Some a)\<rparr>
            else x) (user_table s)\<rparr>"
proof (cases "\<exists>x\<in>set (user_table s). u_id x \<noteq> j \<and>
                u_email x = (case email of None \<Rightarrow> u_email v | Some e \<Rightarrow> e)")
  case True
  from update_user_rejected [OF assms True, where name = name and age = age]
  show ?thesis by simp
next
  case False
  from update_user_committed [OF assms False refl, where name = name and age = age]
  show ?thesis by simp
qed

lemma update_user_keeps_age:
  assumes "session_get_user s i = Some u" and "u_age u \<noteq> None"
  shows "\<exists>u'. session_get_user (snd (update_user j name email age s)) i = Some u' \<and>
              u_age u' \<noteq> None"
proof (cases "session_get_user s j")
  case None
  with assms show ?thesis by (simp add: update_user_absent)
next
  case (Some v)
  let ?w = "v\<lparr>u_name := (case name of None \<Rightarrow> u_name v | Some n \<Rightarrow> n),
              u_email := (case email of None \<Rightarrow> u_email v | Some e \<Rightarrow> e),
              u_age := (case age of None \<Rightarrow> u_age v | Some a \<Rightarrow> Some a)\<rparr>"
  from Some have k: "u_id v = j" and m: "v \<in> set (user_table s)"
    by (simp_all add: get_user_Some)
  from m k have inids: "j \<in> u_id ` set (user_table s)" by auto
  from update_user_outcomes [OF Some, of name email age]
  show ?thesis
  proof
    assume "snd (update_user j name email age s) = s"
    with assms show ?thesis by simp
  next
    assume c: "snd (update_user j name email age s) =
       s\<lparr>user_table := map (\<lambda>x. if u_id x = j then ?w else x) (user_table s)\<rparr>"
    have g: "session_get_user (snd (update_user j name email age s)) i =
        (if i = j then Some ?w else session_get_user s i)"
      unfolding c using get_user_after_replace [of ?w j s i] k inids by simp
    show ?thesis
    proof (cases "i = j")
      case True
      with Some assms have "v = u" by simp
      with assms(2) have "u_age ?w \<noteq> None" by (cases age) simp_all
      with g True show ?thesis by simp
    next
      case False
      with g assms show ?thesis by simp
    qed
  qed
qed

lemma update_post_user_table: "user_table (snd (update_post j title content s)) = user_table s"
  by (simp add: update_post_def commit_post_def Let_def split: option.split)

lemma run_update_keeps_age:
  assumes "session_get_user s i = Some u" and "u_age u \<noteq> None"
  shows "\<exists>u'. session_get_user (run_update c s) i = Some u' \<and> u_age u' \<noteq> None"
proof (cases c)
  case (UpdateUser j name email age)
  with update_user_keeps_age [OF assms] show ?thesis by (simp add: updateUser_def)
next
  case (UpdatePost j title content)
  have "session_get_user (snd (updatePost j title content s)) i = session_get_user s i"
    by (simp add: session_get_user_def updatePost_def update_post_user_table)
  with UpdatePost assms show ?thesis by simp
qed

lemma run_updates_keep_age:
  "session_get_user s i = Some u \<Longrightarrow> u_age u \<noteq> None \<Longrightarrow>
   \<exists>u'. session_get_user (run_updates cs s) i = Some u' \<and> u_age u' \<noteq> None"
proof (induction cs arbitrary: s u)
  case Nil
  then show ?case by simp
next
  case (Cons c cs)
  from run_update_keeps_age [OF Cons.prems, of c]
  obtain u1 where "session_get_user (run_update c s) i = Some u1" "u_age u1 \<noteq> None" by blast
  from Cons.IH [OF this] show ?case by simp
qed

text \<open>The row of a stored user after \<^verbatim>\<open>update_user\<close>, and of a stored post after \<^verbatim>\<open>update_post\<close>.\<close>

lemma update_user_stored_row:
  assumes "session_get_user s i = Some u"
  shows "session_get_user (snd (update_user i name email age s)) i = Some u \<or>
     session_get_user (snd (update_user i name email age s)) i =
       Some (u\<lparr>u_name := (case name of None \<Rightarrow> u_name u | Some n \<Rightarrow> n),
               u_email := (case email of None \<Rightarrow> u_email u | Some e \<Rightarrow> e),
               u_age := (case age of None \<Rightarrow> u_age u | Some a \<Rightarrow> Some a)\<rparr>)"
proof -
  let ?w = "u\<lparr>u_name := (case name of None \<Rightarrow> u_name u | Some n \<Rightarrow> n),
              u_email := (case email of None \<Rightarrow> u_email u | Some e \<Rightarrow> e),
              u_age := (case age of None \<Rightarrow> u_age u | Some a \<Rightarrow> Some a)\<rparr>"
  from assms have k: "u_id u = i" and m: "u \<in> set (user_table s)"
    by (simp_all add: get_user_Some)
  from m k have inids: "i \<in> u_id ` set (user_table s)" by auto
  from update_user_outcomes [OF assms, of name email age]
  show ?thesis
  proof
    assume "snd (update_user i name email age s) = s"
    with assms show ?thesis by simp
  next
    assume c: "snd (update_user i name email age s) =
       s\<lparr>user_table := map (\<lambda>x. if u_id x = i then ?w else x) (user_table s)\<rparr>"
    have "session_get_user (snd (update_user i name email age s)) i = Some ?w"
      unfolding c using get_user_after_replace [of ?w i s i] k inids by simp
    then show ?thesis by simp
  qed
qed

lemma update_user_null_kept:
  assumes "session_get_user s i = Some u"
  shows "map_option u_name (session_get_user (snd (updateUser i Null email age s)) i)
           = Some (u_name u)"
    and "map_option u_email (session_get_user (snd (updateUser i name Null age s)) i)
           = Some (u_email u)"
    and "map_option u_age (session_get_user (snd (updateUser i name email Null s)) i)
           = Some (u_age u)"
proof -
  from update_user_stored_row [OF assms, of None "python_value None email" "python_value None age"]
  show "map_option u_name (session_get_user (snd (updateUser i Null email age s)) i)
           = Some (u_name u)"
    by (auto simp: updateUser_def python_value_def)
  from update_user_stored_row [OF assms, of "python_value None name" None "python_value None age"]
  show "map_option u_email (session_get_user (snd (updateUser i name Null age s)) i)
           = Some (u_email u)"
    by (auto simp: updateUser_def python_value_def)
  from update_user_stored_row [OF assms, of "python_value None name" "python_value None email" None]
  show "map_option u_age (session_get_user (snd (updateUser i name email Null s)) i)
           = Some (u_age u)"
    by (auto simp: updateUser_def python_value_def)
qed

lemma update_post_store:
  "session_get_post s i = Some p \<Longrightarrow>
   snd (update_post i title content s) =
     commit_post (p\<lparr>p_title := (case title of None \<Rightarrow> p_title p | Some t \<Rightarrow> t),
                    p_content := (case content of None \<Rightarrow> p_content p | Some c \<Rightarrow> c)\<rparr>) s"
  by (cases title; cases content) (simp_all add: update_post_def Let_def split: option.split)

lemma update_post_stored_row:
  assumes "session_get_post s i = Some p"
  shows "session_get_post (snd (update_post i title content s)) i =
     Some (p\<lparr>p_title := (case title of None \<Rightarrow> p_title p | Some t \<Rightarrow> t),
             p_content := (case content of None \<Rightarrow> p_content p | Some c \<Rightarrow> c)\<rparr>)"
proof -
  let ?w = "p\<lparr>p_title := (case title of None \<Rightarrow> p_title p | Some t \<Rightarrow> t),
               p_content := (case content of None \<Rightarrow> p_content p | Some c \<Rightarrow> c)\<rparr>"
  from assms have k: "p_id p = i" and m: "p \<in> set (post_table s)"
    by (simp_all add: get_post_Some)
  from m k have inids: "i \<in> p_id ` set (post_table s)" by auto
  have "session_get_post (commit_post ?w s) i = Some ?w"
    using find_replace_key [of p_id ?w i i "post_table s"] k inids
    by (simp add: session_get_post_def commit_post_def)
  with update_post_store [OF assms, of title content] show ?thesis by simp
qed

lemma update_post_null_kept:
  assumes "session_get_post s i = Some p"
  shows "map_option p_title (session_get_post (snd (updatePost i Null content s)) i)
           = Some (p_title p)"
    and "map_option p_content (session_get_post (snd (updatePost i title Null s)) i)
           = Some (p_content p)"
  using update_post_stored_row [OF assms, of None "python_value None content"]
    update_post_stored_row [OF assms, of "python_value None title" None]
  by (simp_all add: updatePost_def python_value_def)

text \<open>
  C9: in updateUser and updatePost an argument given as null has the effect of the
  argument left out, and the stored value of that field is left as it was: the name, the
  email and the age of a stored user, the title and the content of a stored post. A
  stored user whose age is not null still has a non-null age after any sequence of
  updateUser and updatePost requests.
\<close>

theorem update_null_is_omitted:
  "updateUser i Null email age s = updateUser i Omitted email age s \<and>
   updateUser i name Null age s = updateUser i name Omitted age s \<and>
   updateUser i name email Null s = updateUser i name email Omitted s \<and>
   updatePost i Null content s = updatePost i Omitted content s \<and>
   updatePost i title Null s = updatePost i title Omitted s \<and>
   (\<forall>u. session_get_user s i = Some u \<longrightarrow>
        map_option u_name (session_get_user (snd (updateUser i Null email age s)) i)
          = Some (u_name u) \<and>
        map_option u_email (session_get_user (snd (updateUser i name Null age s)) i)
          = Some (u_email u) \<and>
        map_option u_age (session_get_user (snd (updateUser i name email Null s)) i)
          = Some (u_age u)) \<and>
   (\<forall>p. session_get_post s i = Some p \<longrightarrow>
        map_option p_title (session_get_post (snd (updatePost i Null content s)) i)
          = Some (p_title p) \<and>
        map_option p_content (session_get_post (snd (updatePost i title Null s)) i)
          = Some (p_content p)) \<and>
   (\<forall>u. session_get_user s i = Some u \<and> u_age u \<noteq> None \<longrightarrow>
        (\<exists>u'. session_get_user (run_updates calls s) i = Some u' \<and> u_age u' \<noteq> None))"
proof -
  have a: "updateUser i Null email age s = updateUser i Omitted email age s"
    "updateUser i name Null age s = updateUser i name Omitted age s"
    "updateUser i name email Null s = updateUser i name email Omitted s"
    by (simp_all add: updateUser_def python_value_def)
  have b: "updatePost i Null content s = updatePost i Omitted content s"
    "updatePost i title Null s = updatePost i title Omitted s"
    by (simp_all add: updatePost_def python_value_def)
  have c: "\<forall>u. session_get_user s i = Some u \<longrightarrow>
        map_option u_name (session_get_user (snd (updateUser i Null email age s)) i)
          = Some (u_name u) \<and>
        map_option u_email (session_get_user (snd (updateUser i name Null age s)) i)
          = Some (u_email u) \<and>
        map_option u_age (session_get_user (snd (updateUser i name email Null s)) i)
          = Some (u_age u)"
    by (intro allI impI conjI) (rule update_user_null_kept, assumption)+
  have d: "\<forall>p. session_get_post s i = Some p \<longrightarrow>
        map_option p_title (session_get_post (snd (updatePost i Null content s)) i)
          = Some (p_title p) \<and>
        map_option p_content (session_get_post (snd (updatePost i title Null s)) i)
          = Some (p_content p)"
    by (intro allI impI conjI) (rule update_post_null_kept, assumption)+
  have e: "\<forall>u. session_get_user s i = Some u \<and> u_age u \<noteq> None \<longrightarrow>
        (\<exists>u'. session_get_user (run_updates calls s) i = Some u' \<and> u_age u' \<noteq> None)"
    using run_updates_keep_age [of s i _ calls] by blast
  show ?thesis
    by (intro conjI) (rule a b c d e)+
qed

theorem update_null_is_omitted_witness:
  "map_option u_name (session_get_user (snd (updateUser 1 Null Omitted (Given 31) seeded)) 1)
     = Some ''Alice'' \<and>
   map_option u_email (session_get_user (snd (updateUser 1 (Given ''Al'') Null Omitted seeded)) 1)
     = Some ''alice@example.com'' \<and>
   map_option u_age (session_get_user (snd (updateUser 1 (Given ''Al'') Omitted Null seeded)) 1)
     = Some (Some 30) \<and>
   map_option p_title (session_get_post (snd (updatePost 1 Null (Given ''New body'') seeded)) 1)
     = Some ''Title'' \<and>
   map_option p_content (session_get_post (snd (updatePost 1 (Given ''New title'') Null seeded)) 1)
     = Some ''Body'' \<and>
   (\<exists>u'. session_get_user
       (run_updates [UpdateUser 1 Omitted Omitted Null, UpdatePost 1 Null (Given ''x''),
                     UpdateUser 1 Null Null (Given 31), UpdateUser 1 Omitted Omitted Null] seeded) 1
       = Some u' \<and> u_age u' \<noteq> None)"
proof -
  have g: "session_get_user seeded 1 = Some alice" by (simp add: session_get_user_def seed_defs)
  have h: "session_get_post seeded 1 = Some (seed_post 1 1)"
    by (simp add: session_get_post_def seed_defs)
  have n: "u_name alice = ''Alice''" "u_email alice = ''alice@example.com''"
    "u_age alice = Some 30" "p_title (seed_post 1 1) = ''Title''"
    "p_content (seed_post 1 1) = ''Body''"
    by (simp_all add: alice_def seed_post_def)
  from update_null_is_omitted [where i = 1 and s = seeded and name = "Given ''Al''"
      and email = Omitted and age = "Given 31"] g
  have "map_option u_name (session_get_user (snd (updateUser 1 Null Omitted (Given 31) seeded)) 1)
     = Some (u_name alice)" by blast
  then have a1: "map_option u_name (session_get_user (snd (updateUser 1 Null Omitted (Given 31) seeded)) 1)
     = Some ''Alice''" by (simp only: n)
  from update_null_is_omitted [where i = 1 and s = seeded and name = "Given ''Al''"
      and email = Omitted and age = Omitted] g
  have "map_option u_email (session_get_user (snd (updateUser 1 (Given ''Al'') Null Omitted seeded)) 1)
     = Some (u_email alice)"
    and "map_option u_age (session_get_user (snd (updateUser 1 (Given ''Al'') Omitted Null seeded)) 1)
     = Some (u_age alice)" by blast+
  then have a2: "map_option u_email (session_get_user (snd (updateUser 1 (Given ''Al'') Null Omitted seeded)) 1)
     = Some ''alice@example.com''"
    and a3: "map_option u_age (session_get_user (snd (updateUser 1 (Given ''Al'') Omitted Null seeded)) 1)
     = Some (Some 30)" by (simp_all only: n)
  from update_null_is_omitted [where i = 1 and s = seeded and title = "Given ''New title''"
      and content = "Given ''New body''"] h
  have "map_option p_title (session_get_post (snd (updatePost 1 Null (Given ''New body'') seeded)) 1)
     = Some (p_title (seed_post 1 1))"
    and "map_option p_content (session_get_post (snd (updatePost 1 (Given ''New title'') Null seeded)) 1)
     = Some (p_content (seed_post 1 1))" by blast+
  then have a4: "map_option p_title (session_get_post (snd (updatePost 1 Null (Given ''New body'') seeded)) 1)
     = Some ''Title''"
    and a5: "map_option p_content (session_get_post (snd (updatePost 1 (Given ''New title'') Null seeded)) 1)
     = Some ''Body''" by (simp_all only: n)
  from update_null_is_omitted [where i = 1 and s = seeded
      and calls = "[UpdateUser 1 Omitted Omitted Null, UpdatePost 1 Null (Given ''x''),
                     UpdateUser 1 Null Null (Given 31), UpdateUser 1 Omitted Omitted Null]"] g n(3)
  have b: "\<exists>u'. session_get_user
       (run_updates [UpdateUser 1 Omitted Omitted Null, UpdatePost 1 Null (Given ''x''),
                     UpdateUser 1 Null Null (Given 31), UpdateUser 1 Omitted Omitted Null] seeded) 1
       = Some u' \<and> u_age u' \<noteq> None" by blast
  from a1 a2 a3 a4 a5 b show ?thesis by (intro conjI)
qed

section \<open>Pages of posts\<close>

lemma find_distinct_key:
  "distinct (map f xs) \<Longrightarrow> x \<in> set xs \<Longrightarrow> find (\<lambda>y. f y = f x) xs = Some x"
  by (induction xs) (auto simp: image_iff)

lemma wf_store_post_lookup:
  assumes "wf_store s" and "p \<in> set (post_table s)"
  shows "session_get_post s (p_id p) = Some p"
proof -
  from assms(1) have "sorted_wrt (<) (map p_id (post_table s))" by (simp add: wf_store_def)
  then have "distinct (map p_id (post_table s))" by (simp add: strict_sorted_iff)
  from find_distinct_key [OF this assms(2)] show ?thesis by (simp add: session_get_post_def)
qed

lemma wf_store_author:
  assumes "wf_store s" and "p \<in> set (post_table s)"
  shows "\<exists>a. author s p = Some a"
proof -
  from assms have "list_ex (\<lambda>u. u_id u = p_author_id p) (user_table s)"
    by (simp add: wf_store_def list_all_iff)
  then have "p_author_id p \<in> u_id ` set (user_table s)" by (force simp: list_ex_iff)
  then have "session_get_user s (p_author_id p) \<noteq> None" by (simp add: get_user_None)
  then show ?thesis by (auto simp: author_def)
qed

lemma posts_loop_embeds:
  assumes "wf_store s"
  shows "set ps \<subseteq> set (post_table s) \<Longrightarrow>
    \<exists>result. posts_loop s ps = Inr result \<and> PostResolver_posts_loop s ps = Inr result \<and>
      list_all2 (\<lambda>p r. pt_id r = p_id p \<and> pt_title r = p_title p \<and> pt_content r = p_content p \<and>
                 pt_created_at r = isoformat (p_created_at p) \<and>
                 (\<exists>a. session_get_user s (p_author_id p) = Some a \<and> a \<in> set (user_table s) \<and>
                      pt_author r = \<lparr>ut_id = p_author_id p, ut_name = u_name a,
                                     ut_email = u_email a, ut_age = u_age a,
                                     ut_created_at = isoformat (u_created_at a)\<rparr>))
        ps result"
proof (induction ps)
  case Nil
  then show ?case by simp
next
  case (Cons p ps)
  then have m: "p \<in> set (post_table s)" and rest: "set ps \<subseteq> set (post_table s)" by simp_all
  from wf_store_post_lookup [OF assms m] have g: "session_get_post s (p_id p) = Some p" .
  from wf_store_author [OF assms m] obtain a where a: "author s p = Some a" by blast
  from Cons.IH [OF rest] obtain result where
    r: "posts_loop s ps = Inr result" "PostResolver_posts_loop s ps = Inr result"
      "list_all2 (\<lambda>p r. pt_id r = p_id p \<and> pt_title r = p_title p \<and> pt_content r = p_content p \<and>
                 pt_created_at r = isoformat (p_created_at p) \<and>
                 (\<exists>a. session_get_user s (p_author_id p) = Some a \<and> a \<in> set (user_table s) \<and>
                      pt_author r = \<lparr>ut_id = p_author_id p, ut_name = u_name a,
                                     ut_email = u_email a, ut_age = u_age a,
                                     ut_created_at = isoformat (u_created_at a)\<rparr>))
        ps result"
    by blast
  from a have a': "session_get_user s (p_author_id p) = Some a" by (simp add: author_def)
  then have a'': "a \<in> set (user_table s)" "u_id a = p_author_id p"
    by (simp_all add: get_user_Some)
  from g a a' a'' r show ?case by (simp add: to_UserType_def)
qed

lemma offset_limit_subset: "set (offset_limit offset limit rows) \<subseteq> set rows"
  by (auto simp: offset_limit_def Let_def split: option.split dest: in_set_takeD in_set_dropD)

lemma offset_limit_window:
  "0 \<le> l \<Longrightarrow> offset_limit (Some off) (Some l) rows = take (nat l) (drop (nat off) rows)"
  by (simp add: offset_limit_def)

lemma offset_limit_negative:
  "l < 0 \<Longrightarrow> offset_limit (Some off) (Some l) rows = drop (nat off) rows"
  by (simp add: offset_limit_def)

lemma offset_limit_null: "offset_limit (Some off) None rows = drop (nat off) rows"
  by (simp add: offset_limit_def)

lemma offset_limit_no_offset:
  "offset_limit None limit rows = offset_limit (Some 0) limit rows"
  by (simp add: offset_limit_def)

lemma sorted_wrt_offset_limit:
  "sorted_wrt (<) (map f rows) \<Longrightarrow> sorted_wrt (<) (map f (offset_limit offset limit rows))"
  by (simp add: offset_limit_def Let_def sorted_wrt_take sorted_wrt_drop take_map [symmetric]
      drop_map [symmetric] split: option.split)

text \<open>
  C4, amended: in a well-formed store (keys unique and ascending, every post's
  author_id naming a stored user), posts(limit, offset) returns, for the rows that
  offset and limit select from the id-ascending table, one Post each, in that order, with
  the fields of the row and every field of the stored author embedded. For a limit that
  is not negative the selected rows are the first limit rows after the first offset rows
  (a negative offset skips nothing), so at most limit posts are returned; for a negative
  limit and for a null limit the selected rows are all the rows after the first offset
  rows; a null offset is the offset 0. Over posts with the keys 1 to 5,
  posts(limit=2, offset=1) returns the posts 2 and 3. Both resolver classes return the
  same.
\<close>

theorem posts_page:
  assumes "wf_store s"
  shows "\<exists>result.
     posts limit offset s = (Inr result, s) \<and>
     PostResolver_posts limit offset s = (Inr result, s) \<and>
     list_all2 (\<lambda>p r. pt_id r = p_id p \<and> pt_title r = p_title p \<and> pt_content r = p_content p \<and>
                 pt_created_at r = isoformat (p_created_at p) \<and>
                 (\<exists>a. session_get_user s (p_author_id p) = Some a \<and> a \<in> set (user_table s) \<and>
                      pt_author r = \<lparr>ut_id = p_author_id p, ut_name = u_name a,
                                     ut_email = u_email a, ut_age = u_age a,
                                     ut_created_at = isoformat (u_created_at a)\<rparr>))
       (offset_limit offset limit (post_table s)) result \<and>
     sorted_wrt (<) (map pt_id result) \<and>
     (\<forall>l off. limit = Some l \<and> offset = Some off \<and> 0 \<le> l \<longrightarrow>
        offset_limit offset limit (post_table s) = take (nat l) (drop (nat off) (post_table s)) \<and>
        int (length result) \<le> l) \<and>
     (\<forall>l off. limit = Some l \<and> offset = Some off \<and> l < 0 \<longrightarrow>
        offset_limit offset limit (post_table s) = drop (nat off) (post_table s) \<and>
        length result = length (post_table s) - nat off) \<and>
     (\<forall>off. limit = None \<and> offset = Some off \<longrightarrow>
        offset_limit offset limit (post_table s) = drop (nat off) (post_table s) \<and>
        length result = length (post_table s) - nat off) \<and>
     (offset = None \<longrightarrow>
        posts limit offset s = posts limit (Some 0) s \<and>
        offset_limit offset limit (post_table s) = offset_limit (Some 0) limit (post_table s)) \<and>
     (map p_id (post_table s) = [1, 2, 3, 4, 5] \<and> limit = Some 2 \<and> offset = Some 1 \<longrightarrow>
        map pt_id result = [2, 3])"
proof -
  let ?sel = "offset_limit offset limit (post_table s)"
  let ?emb = "(\<lambda>p r. pt_id r = p_id p \<and> pt_title r = p_title p \<and> pt_content r = p_content p \<and>
                 pt_created_at r = isoformat (p_created_at p) \<and>
                 (\<exists>a. session_get_user s (p_author_id p) = Some a \<and> a \<in> set (user_table s) \<and>
                      pt_author r = \<lparr>ut_id = p_author_id p, ut_name = u_name a,
                                     ut_email = u_email a, ut_age = u_age a,
                                     ut_created_at = isoformat (u_created_at a)\<rparr>))"
  from posts_loop_embeds [OF assms offset_limit_subset, of offset limit]
  obtain result where r: "posts_loop s ?sel = Inr result" "PostResolver_posts_loop s ?sel = Inr result"
    and e: "list_all2 ?emb ?sel result"
    by blast
  from e have len: "length result = length ?sel" by (simp add: list_all2_lengthD)
  from e have "list_all2 (\<lambda>p r. pt_id r = p_id p) ?sel result"
    by (rule list_all2_mono) simp
  then have ids: "map pt_id result = map p_id ?sel"
    by (induction rule: list_all2_induct) simp_all
  from assms have "sorted_wrt (<) (map p_id (post_table s))" by (simp add: wf_store_def)
  then have so: "sorted_wrt (<) (map pt_id result)"
    unfolding ids by (rule sorted_wrt_offset_limit)
  have win: "?sel = take (nat l) (drop (nat off) (post_table s)) \<and> int (length result) \<le> l"
    if "limit = Some l" "offset = Some off" "0 \<le> l" for l off
    using that len by (simp add: offset_limit_window)
  have neg: "?sel = drop (nat off) (post_table s) \<and>
      length result = length (post_table s) - nat off"
    if "limit = Some l" "offset = Some off" "l < 0" for l off
    using that len by (simp add: offset_limit_negative)
  have nul: "?sel = drop (nat off) (post_table s) \<and>
      length result = length (post_table s) - nat off"
    if "limit = None" "offset = Some off" for off
    using that len by (simp add: offset_limit_null)
  have noo: "posts limit offset s = posts limit (Some 0) s \<and>
      ?sel = offset_limit (Some 0) limit (post_table s)"
    if "offset = None"
    using that offset_limit_no_offset [of limit "post_table s"] by (simp add: posts_def)
  have five: "map pt_id result = [2, 3]"
    if "map p_id (post_table s) = [1, 2, 3, 4, 5]" "limit = Some 2" "offset = Some 1"
  proof -
    from that(2,3) have "?sel = take 2 (drop 1 (post_table s))"
      by (simp add: offset_limit_def)
    then have "map p_id ?sel = take 2 (drop 1 (map p_id (post_table s)))"
      by (simp only: take_map drop_map)
    also have "\<dots> = [2, 3]" unfolding that(1) by simp
    finally show ?thesis using ids by simp
  qed
  have p1: "posts limit offset s = (Inr result, s)"
    and p2: "PostResolver_posts limit offset s = (Inr result, s)"
    using r by (simp_all add: posts_def PostResolver_posts_def)
  from win have w: "\<forall>l off. limit = Some l \<and> offset = Some off \<and> 0 \<le> l \<longrightarrow>
        ?sel = take (nat l) (drop (nat off) (post_table s)) \<and> int (length result) \<le> l"
    by blast
  from neg have n: "\<forall>l off. limit = Some l \<and> offset = Some off \<and> l < 0 \<longrightarrow>
        ?sel = drop (nat off) (post_table s) \<and>
        length result = length (post_table s) - nat off"
    by blast
  from nul have u: "\<forall>off. limit = None \<and> offset = Some off \<longrightarrow>
        ?sel = drop (nat off) (post_table s) \<and>
        length result = length (post_table s) - nat off"
    by blast
  from noo have o: "offset = None \<longrightarrow>
        posts limit offset s = posts limit (Some 0) s \<and>
        ?sel = offset_limit (Some 0) limit (post_table s)"
    by blast
  from five have f: "map p_id (post_table s) = [1, 2, 3, 4, 5] \<and> limit = Some 2 \<and> offset = Some 1 \<longrightarrow>
        map pt_id result = [2, 3]"
    by (intro impI) (elim conjE)
  show ?thesis
    by (intro exI [of _ result] conjI) (rule p1 p2 e so w n u o f)+
qed

theorem posts_page_witness:
  "(\<exists>r2 r3. posts (Some 2) (Some 1) seeded = (Inr [r2, r3], seeded) \<and>
     pt_id r2 = 2 \<and> pt_id r3 = 3 \<and>
     pt_author r2 = \<lparr>ut_id = 2, ut_name = ''Bob'', ut_email = ''bob@example.com'',
                      ut_age = None, ut_created_at = ''2024-05-17T09:30:00''\<rparr> \<and>
     pt_author r3 = \<lparr>ut_id = 1, ut_name = ''Alice'', ut_email = ''alice@example.com'',
                      ut_age = Some 30, ut_created_at = ''2024-05-17T09:30:00''\<rparr>) \<and>
   (\<exists>result. posts (Some (- 1)) (Some 3) seeded = (Inr result, seeded) \<and>
      map pt_id result = [4, 5]) \<and>
   (\<exists>result. posts None (Some 3) seeded = (Inr result, seeded) \<and> map pt_id result = [4, 5])"
proof -
  let ?emb = "(\<lambda>p r. pt_id r = p_id p \<and> pt_title r = p_title p \<and> pt_content r = p_content p \<and>
                 pt_created_at r = isoformat (p_created_at p) \<and>
                 (\<exists>a. session_get_user seeded (p_author_id p) = Some a \<and> a \<in> set (user_table seeded) \<and>
                      pt_author r = \<lparr>ut_id = p_author_id p, ut_name = u_name a,
                                     ut_email = u_email a, ut_age = u_age a,
                                     ut_created_at = isoformat (u_created_at a)\<rparr>))"
  have w: "wf_store seeded" by (simp add: wf_store_def seed_defs)
  have sel: "offset_limit (Some 1) (Some 2) (post_table seeded) = [seed_post 2 2, seed_post 3 1]"
    by (simp add: offset_limit_def seeded_def)
  have rest: "drop (nat 3) (post_table seeded) = [seed_post 4 2, seed_post 5 1]"
    by (simp add: seeded_def)
  have g: "session_get_user seeded 2 = Some bob" "session_get_user seeded 1 = Some alice"
    by (simp_all add: session_get_user_def seed_defs)
  have f: "u_name bob = ''Bob''" "u_email bob = ''bob@example.com''" "u_age bob = None"
    "isoformat (u_created_at bob) = ''2024-05-17T09:30:00''"
    "u_name alice = ''Alice''" "u_email alice = ''alice@example.com''" "u_age alice = Some 30"
    "isoformat (u_created_at alice) = ''2024-05-17T09:30:00''"
    by (simp_all add: bob_def alice_def isoformat_t0)
  from posts_page [OF w, of "Some 2" "Some 1"]
  obtain result where r: "posts (Some 2) (Some 1) seeded = (Inr result, seeded)"
    and e: "list_all2 ?emb (offset_limit (Some 1) (Some 2) (post_table seeded)) result"
    by blast
  from e [unfolded sel] obtain r2 r3 where "result = [r2, r3]"
    "pt_id r2 = 2" "pt_id r3 = 3"
    "pt_author r2 = \<lparr>ut_id = 2, ut_name = ''Bob'', ut_email = ''bob@example.com'',
                      ut_age = None, ut_created_at = ''2024-05-17T09:30:00''\<rparr>"
    "pt_author r3 = \<lparr>ut_id = 1, ut_name = ''Alice'', ut_email = ''alice@example.com'',
                      ut_age = Some 30, ut_created_at = ''2024-05-17T09:30:00''\<rparr>"
    by (auto simp: list_all2_Cons1 seed_post_def g f)
  with r have a: "\<exists>r2 r3. posts (Some 2) (Some 1) seeded = (Inr [r2, r3], seeded) \<and>
     pt_id r2 = 2 \<and> pt_id r3 = 3 \<and>
     pt_author r2 = \<lparr>ut_id = 2, ut_name = ''Bob'', ut_email = ''bob@example.com'',
                      ut_age = None, ut_created_at = ''2024-05-17T09:30:00''\<rparr> \<and>
     pt_author r3 = \<lparr>ut_id = 1, ut_name = ''Alice'', ut_email = ''alice@example.com'',
                      ut_age = Some 30, ut_created_at = ''2024-05-17T09:30:00''\<rparr>"
    by blast
  from posts_page [OF w, of "Some (- 1)" "Some 3"]
  obtain res1 where r1: "posts (Some (- 1)) (Some 3) seeded = (Inr res1, seeded)"
    and e1: "list_all2 ?emb (offset_limit (Some 3) (Some (- 1)) (post_table seeded)) res1"
    and s1: "offset_limit (Some 3) (Some (- 1)) (post_table seeded) = drop (nat 3) (post_table seeded)"
    by auto
  from e1 [unfolded s1 rest] have "map pt_id res1 = [4, 5]"
    by (auto simp: list_all2_Cons1 seed_post_def)
  with r1 have b: "\<exists>result. posts (Some (- 1)) (Some 3) seeded = (Inr result, seeded) \<and>
      map pt_id result = [4, 5]" by (intro exI [of _ res1] conjI)
  from posts_page [OF w, of None "Some 3"]
  obtain res2 where r2: "posts None (Some 3) seeded = (Inr res2, seeded)"
    and e2: "list_all2 ?emb (offset_limit (Some 3) None (post_table seeded)) res2"
    and s2: "offset_limit (Some 3) None (post_table seeded) = drop (nat 3) (post_table seeded)"
    by auto
  from e2 [unfolded s2 rest] have "map pt_id res2 = [4, 5]"
    by (auto simp: list_all2_Cons1 seed_post_def)
  with r2 have c: "\<exists>result. posts None (Some 3) seeded = (Inr result, seeded) \<and>
      map pt_id result = [4, 5]" by (intro exI [of _ res2] conjI)
  from a b c show ?thesis by (intro conjI)
qed

text \<open>
  With the limit -1 and the offset 0 all five posts of the seeded store are returned:
  more than any bound that the limit -1 could stand for, and not the empty page.
\<close>

theorem posts_negative_limit_counterexample:
  "\<exists>result. posts (Some (- 1)) (Some 0) seeded = (Inr result, seeded) \<and>
      map pt_id result = [1, 2, 3, 4, 5] \<and> length result = 5 \<and>
      \<not> int (length result) \<le> - 1"
  by (simp add: posts_def offset_limit_def session_get_post_def session_get_user_def author_def
      seed_defs)

section \<open>The resolvers keep the store well-formed\<close>

lemma sorted_append_next_rowid: "sorted_wrt (<) ids \<Longrightarrow> sorted_wrt (<) (ids @ [next_rowid ids])"
  by (simp add: sorted_wrt_append next_rowid_greater)

lemma map_key_replace: "f y = i \<Longrightarrow> map f (map (\<lambda>x. if f x = i then y else x) xs) = map f xs"
  by (induction xs) auto

lemma authors_stored_iff:
  "list_all (\<lambda>p. list_ex (\<lambda>u. u_id u = p_author_id p) us) ps \<longleftrightarrow>
   p_author_id ` set ps \<subseteq> u_id ` set us"
  unfolding list_all_iff list_ex_iff image_subset_iff image_iff by metis

lemma wf_store_iff:
  "wf_store s \<longleftrightarrow>
     sorted_wrt (<) (map u_id (user_table s)) \<and> distinct (map u_email (user_table s)) \<and>
     sorted_wrt (<) (map p_id (post_table s)) \<and>
     p_author_id ` set (post_table s) \<subseteq> u_id ` set (user_table s)"
  by (simp add: wf_store_def authors_stored_iff)

lemma wf_store_empty: "wf_store \<lparr>user_table = [], post_table = []\<rparr>"
  by (simp add: wf_store_def)

lemma create_user_wf:
  assumes "wf_store s"
  shows "wf_store (snd (create_user inp now s))"
proof (cases "\<exists>u\<in>set (user_table s). u_email u = ui_email inp")
  case True
  then obtain v where "find (\<lambda>u. u_email u = ui_email inp) (user_table s) = Some v"
    by (cases "find (\<lambda>u. u_email u = ui_email inp) (user_table s)") (auto simp: find_None_iff)
  with assms show ?thesis by (simp add: create_user_def first_user_with_email_def)
next
  case False
  then have f: "find (\<lambda>u. u_email u = ui_email inp) (user_table s) = None"
    by (simp add: find_None_iff)
  from False have l: "\<not> list_ex (\<lambda>v. u_email v = ui_email inp) (user_table s)"
    by (simp add: list_ex_iff)
  from False have n: "ui_email inp \<notin> u_email ` set (user_table s)" by auto
  from f l have "snd (create_user inp now s) =
      s\<lparr>user_table := user_table s @
          [\<lparr>u_id = next_rowid (map u_id (user_table s)), u_name = ui_name inp,
            u_email = ui_email inp, u_age = ui_age inp, u_created_at = now\<rparr>]\<rparr>"
    by (simp add: create_user_def first_user_with_email_def commit_new_user_def Let_def)
  moreover from assms n have "wf_store (s\<lparr>user_table := user_table s @
          [\<lparr>u_id = next_rowid (map u_id (user_table s)), u_name = ui_name inp,
            u_email = ui_email inp, u_age = ui_age inp, u_created_at = now\<rparr>]\<rparr>)"
    by (auto simp: wf_store_iff sorted_append_next_rowid)
  ultimately show ?thesis by simp
qed

lemma distinct_email_replace:
  assumes "distinct (map u_id us)" and "distinct (map u_email us)" and "u_id w = i"
    and "\<not> (\<exists>v\<in>set us. u_id v \<noteq> i \<and> u_email v = u_email w)"
  shows "distinct (map u_email (map (\<lambda>v. if u_id v = i then w else v) us))"
  using assms
proof (induction us)
  case Nil
  then show ?case by simp
next
  case (Cons x us)
  then have ih: "distinct (map u_email (map (\<lambda>v. if u_id v = i then w else v) us))" by simp
  show ?case
  proof (cases "u_id x = i")
    case True
    from Cons.prems(1) have "u_id x \<notin> u_id ` set us" by simp
    with True have "\<forall>v\<in>set us. u_id v \<noteq> i" by blast
    with Cons.prems(4) have "u_email w \<notin> u_email ` set us" and
      "map (\<lambda>v. if u_id v = i then w else v) us = us"
      by (auto simp: map_idI)
    with True Cons.prems(2) show ?thesis by simp
  next
    case False
    with Cons.prems(4) have a: "u_email x \<noteq> u_email w" by auto
    from Cons.prems(2) have b: "u_email x \<notin> u_email ` set us" by simp
    have "u_email x \<notin> set (map u_email (map (\<lambda>v. if u_id v = i then w else v) us))"
    proof
      assume "u_email x \<in> set (map u_email (map (\<lambda>v. if u_id v = i then w else v) us))"
      then obtain v where v: "v \<in> set us" "u_email x = u_email (if u_id v = i then w else v)"
        by auto
      show False
      proof (cases "u_id v = i")
        case True
        with v a show False by simp
      next
        case False
        with v b show False by auto
      qed
    qed
    with False ih show ?thesis by simp
  qed
qed

lemma update_user_wf:
  assumes "wf_store s"
  shows "wf_store (snd (update_user i name email age s))"
proof (cases "session_get_user s i")
  case None
  with assms show ?thesis by (simp add: update_user_absent)
next
  case (Some u)
  let ?w = "u\<lparr>u_name := (case name of None \<Rightarrow> u_name u | Some n \<Rightarrow> n),
              u_email := (case email of None \<Rightarrow> u_email u | Some e \<Rightarrow> e),
              u_age := (case age of None \<Rightarrow> u_age u | Some a \<Rightarrow> Some a)\<rparr>"
  from Some have k: "u_id ?w = i" by (simp add: get_user_Some)
  show ?thesis
  proof (cases "\<exists>v\<in>set (user_table s). u_id v \<noteq> i \<and>
                  u_email v = (case email of None \<Rightarrow> u_email u | Some e \<Rightarrow> e)")
    case True
    from update_user_rejected [OF Some True, where name = name and age = age] assms
    show ?thesis by simp
  next
    case False
    then have free: "\<not> (\<exists>v\<in>set (user_table s). u_id v \<noteq> i \<and> u_email v = u_email ?w)" by simp
    from assms have "distinct (map u_id (user_table s))" "distinct (map u_email (user_table s))"
      by (simp_all add: wf_store_iff strict_sorted_iff)
    from distinct_email_replace [OF this k free]
    have d: "distinct (map u_email (map (\<lambda>v. if u_id v = i then ?w else v) (user_table s)))" .
    have ids: "map u_id (map (\<lambda>v. if u_id v = i then ?w else v) (user_table s)) = map u_id (user_table s)"
      using map_key_replace [of u_id ?w i "user_table s"] k by simp
    then have ids': "u_id ` set (map (\<lambda>v. if u_id v = i then ?w else v) (user_table s))
        = u_id ` set (user_table s)"
      by (metis list.set_map)
    from assms d ids ids'
    have "wf_store (s\<lparr>user_table := map (\<lambda>v. if u_id v = i then ?w else v) (user_table s)\<rparr>)"
      by (simp add: wf_store_iff del: map_map set_map)
    with update_user_committed [OF Some False refl, where name = name and age = age]
    show ?thesis by simp
  qed
qed

lemma authors_after_delete:
  assumes "p_author_id ` set ps \<subseteq> u_id ` set us" and "i \<notin> p_author_id ` set ps"
  shows "p_author_id ` set ps \<subseteq> u_id ` set (filter (\<lambda>v. u_id v \<noteq> i) us)"
proof (rule subsetI)
  fix x
  assume x: "x \<in> p_author_id ` set ps"
  with assms(2) have ne: "x \<noteq> i" by blast
  from x assms(1) have "x \<in> u_id ` set us" by (rule subsetD [rotated])
  then obtain v where v: "v \<in> set us" "x = u_id v" by (rule imageE)
  from v ne have "v \<in> set (filter (\<lambda>v. u_id v \<noteq> i) us)" by simp
  with v(2) show "x \<in> u_id ` set (filter (\<lambda>v. u_id v \<noteq> i) us)" by (rule image_eqI)
qed

lemma delete_user_wf:
  assumes "wf_store s"
  shows "wf_store (snd (delete_user i s))"
proof (cases "session_get_user s i")
  case None
  with assms show ?thesis by (simp add: delete_user_def)
next
  case (Some u)
  then have k: "u_id u = i" by (simp add: get_user_Some)
  show ?thesis
  proof (cases "i \<in> p_author_id ` set (post_table s)")
    case True
    with Some k assms show ?thesis
      by (simp add: delete_user_def commit_delete_user_def owns_posts_iff)
  next
    case False
    let ?us = "filter (\<lambda>v. u_id v \<noteq> i) (user_table s)"
    from False Some k have s': "snd (delete_user i s) = s\<lparr>user_table := ?us\<rparr>"
      by (simp add: delete_user_def commit_delete_user_def owns_posts_iff)
    from assms have w: "sorted_wrt (<) (map u_id (user_table s))"
      "distinct (map u_email (user_table s))" "sorted_wrt (<) (map p_id (post_table s))"
      "p_author_id ` set (post_table s) \<subseteq> u_id ` set (user_table s)"
      by (simp_all add: wf_store_iff)
    from w(1) have a: "sorted_wrt (<) (map u_id ?us)"
      by (simp add: sorted_wrt_map sorted_wrt_filter)
    from w(2) have b: "distinct (map u_email ?us)" by (rule distinct_map_filter)
    from authors_after_delete [OF w(4) False]
    have c: "p_author_id ` set (post_table s) \<subseteq> u_id ` set ?us" .
    have "wf_store (s\<lparr>user_table := ?us\<rparr>)"
      unfolding wf_store_iff using a b c w(3) by simp
    with s' show ?thesis by simp
  qed
qed

lemma create_post_store:
  "snd (create_post inp now s) =
     (if pi_author_id inp \<in> u_id ` set (user_table s)
      then s\<lparr>post_table := post_table s @
             [\<lparr>p_id = next_rowid (map p_id (post_table s)), p_title = pi_title inp,
               p_content = pi_content inp, p_author_id = pi_author_id inp, p_created_at = now\<rparr>]\<rparr>
      else s)"
proof (cases "session_get_user s (pi_author_id inp)")
  case None
  then have "pi_author_id inp \<notin> u_id ` set (user_table s)" by (simp add: get_user_None)
  with None show ?thesis by (simp add: create_post_def)
next
  case (Some a)
  then have "pi_author_id inp \<in> u_id ` set (user_table s)"
    using get_user_None [of s "pi_author_id inp"] by simp
  with Some show ?thesis
    by (simp add: create_post_def commit_new_post_def Let_def split: option.split)
qed

lemma create_post_wf:
  assumes "wf_store s"
  shows "wf_store (snd (create_post inp now s))"
proof (cases "pi_author_id inp \<in> u_id ` set (user_table s)")
  case False
  with assms show ?thesis by (simp add: create_post_store)
next
  case True
  let ?p = "\<lparr>p_id = next_rowid (map p_id (post_table s)), p_title = pi_title inp,
               p_content = pi_content inp, p_author_id = pi_author_id inp, p_created_at = now\<rparr>"
  from assms have w: "sorted_wrt (<) (map u_id (user_table s))"
      "distinct (map u_email (user_table s))" "sorted_wrt (<) (map p_id (post_table s))"
      "p_author_id ` set (post_table s) \<subseteq> u_id ` set (user_table s)"
    by (simp_all add: wf_store_iff)
  from sorted_append_next_rowid [OF w(3)]
  have a: "sorted_wrt (<) (map p_id (post_table s @ [?p]))" by simp
  from w(4) True have b: "p_author_id ` set (post_table s @ [?p]) \<subseteq> u_id ` set (user_table s)"
    by simp
  have "wf_store (s\<lparr>post_table := post_table s @ [?p]\<rparr>)"
    unfolding wf_store_iff using a b w(1,2) by simp
  with True show ?thesis by (simp add: create_post_store)
qed

lemma update_post_wf:
  assumes "wf_store s"
  shows "wf_store (snd (update_post i title content s))"
proof (cases "session_get_post s i")
  case None
  with assms show ?thesis by (simp add: update_post_def)
next
  case (Some p)
  let ?w = "p\<lparr>p_title := (case title of None \<Rightarrow> p_title p | Some t \<Rightarrow> t),
               p_content := (case content of None \<Rightarrow> p_content p | Some c \<Rightarrow> c)\<rparr>"
  let ?ps = "map (\<lambda>q. if p_id q = p_id ?w then ?w else q) (post_table s)"
  from Some have m: "p \<in> set (post_table s)" by (simp add: get_post_Some)
  from assms have w: "sorted_wrt (<) (map u_id (user_table s))"
      "distinct (map u_email (user_table s))" "sorted_wrt (<) (map p_id (post_table s))"
      "p_author_id ` set (post_table s) \<subseteq> u_id ` set (user_table s)"
    by (simp_all add: wf_store_iff)
  have ids: "map p_id ?ps = map p_id (post_table s)"
    by (rule map_key_replace) simp
  have "p_author_id ` set ?ps \<subseteq> p_author_id ` set (post_table s)"
  proof (rule subsetI)
    fix x
    assume "x \<in> p_author_id ` set ?ps"
    then obtain q where q: "q \<in> set (post_table s)"
      "x = p_author_id (if p_id q = p_id ?w then ?w else q)"
      by auto
    show "x \<in> p_author_id ` set (post_table s)"
    proof (cases "p_id q = p_id ?w")
      case True
      with q(2) have "x = p_author_id p" by simp
      with m show ?thesis by (rule image_eqI [rotated])
    next
      case False
      with q(2) have "x = p_author_id q" by simp
      with q(1) show ?thesis by (rule image_eqI [rotated])
    qed
  qed
  with w(4) have au: "p_author_id ` set ?ps \<subseteq> u_id ` set (user_table s)" by (rule subset_trans [rotated])
  have so: "sorted_wrt (<) (map p_id ?ps)" unfolding ids by (rule w(3))
  have rec: "user_table (s\<lparr>post_table := ?ps\<rparr>) = user_table s"
    "post_table (s\<lparr>post_table := ?ps\<rparr>) = ?ps"
    by simp_all
  have "wf_store (s\<lparr>post_table := ?ps\<rparr>)"
    unfolding wf_store_iff rec using w(1,2) so au by blast
  then have "wf_store (commit_post ?w s)" by (simp only: commit_post_def)
  with update_post_store [OF Some, of title content] show ?thesis by simp
qed

lemma delete_post_wf:
  assumes "wf_store s"
  shows "wf_store (snd (delete_post i s))"
proof (cases "session_get_post s i")
  case None
  with assms show ?thesis by (simp add: delete_post_def)
next
  case (Some p)
  let ?ps = "filter (\<lambda>q. p_id q \<noteq> p_id p) (post_table s)"
  from assms have w: "sorted_wrt (<) (map u_id (user_table s))"
      "distinct (map u_email (user_table s))" "sorted_wrt (<) (map p_id (post_table s))"
      "p_author_id ` set (post_table s) \<subseteq> u_id ` set (user_table s)"
    by (simp_all add: wf_store_iff)
  from w(3) have a: "sorted_wrt (<) (map p_id ?ps)"
    by (simp add: sorted_wrt_map sorted_wrt_filter)
  have "set ?ps \<subseteq> set (post_table s)" by simp
  then have "p_author_id ` set ?ps \<subseteq> p_author_id ` set (post_table s)" by (rule image_mono)
  with w(4) have b: "p_author_id ` set ?ps \<subseteq> u_id ` set (user_table s)" by (rule subset_trans [rotated])
  have "wf_store (s\<lparr>post_table := ?ps\<rparr>)"
    unfolding wf_store_iff using a b w(1,2) by simp
  then have "wf_store (commit_delete_post p s)" by (simp only: commit_delete_post_def)
  with Some show ?thesis by (simp add: delete_post_def)
qed


text \<open>Every store the mutations can produce from the empty tables is well-formed.\<close>

lemma reachable_wf_store: "reachable s \<Longrightarrow> wf_store s"
proof (induction rule: reachable.induct)
  case empty_tables
  show ?case by (rule wf_store_empty)
next
  case (after_create_user s user_input now)
  then show ?case by (simp add: create_user_wf)
next
  case (after_update_user s i name email age)
  then show ?case by (simp add: update_user_wf)
next
  case (after_delete_user s i)
  then show ?case by (simp add: delete_user_wf)
next
  case (after_create_post s post_input now)
  then show ?case by (simp add: create_post_wf)
next
  case (after_update_post s i title content)
  then show ?case by (simp add: update_post_wf)
next
  case (after_delete_post s i)
  then show ?case by (simp add: delete_post_wf)
qed


section \<open>The response of \<^verbatim>\<open>update_post\<close> in general\<close>

text \<open>
  For a stored post of a well-formed store, \<^verbatim>\<open>update_post\<close> commits the row with the
  supplied fields overwritten and returns an object whose title is the content of that
  row.
\<close>

lemma update_post_response:
  assumes "wf_store s" and "session_get_post s i = Some p"
  shows "\<exists>a. author s p = Some a \<and>
     update_post i title content s =
       (Inr \<lparr>pt_id = i,
             pt_title = (case content of None \<Rightarrow> p_content p | Some c \<Rightarrow> c),
             pt_content = (case content of None \<Rightarrow> p_content p | Some c \<Rightarrow> c),
             pt_created_at = isoformat (p_created_at p), pt_author = to_UserType a\<rparr>,
        commit_post (p\<lparr>p_title := (case title of None \<Rightarrow> p_title p | Some t \<Rightarrow> t),
                      p_content := (case content of None \<Rightarrow> p_content p | Some c \<Rightarrow> c)\<rparr>) s)"
proof -
  let ?w = "p\<lparr>p_title := (case title of None \<Rightarrow> p_title p | Some t \<Rightarrow> t),
               p_content := (case content of None \<Rightarrow> p_content p | Some c \<Rightarrow> c)\<rparr>"
  from assms(2) have m: "p \<in> set (post_table s)" and k: "p_id p = i"
    by (simp_all add: get_post_Some)
  from m k have inids: "i \<in> p_id ` set (post_table s)" by blast
  from wf_store_author [OF assms(1) m] obtain a where a: "author s p = Some a" by blast
  have g: "session_get_post (commit_post ?w s) i = Some ?w"
    using find_replace_key [of p_id ?w i i "post_table s"] k inids
    by (simp add: session_get_post_def commit_post_def)
  have au: "author (commit_post ?w s) ?w = Some a"
    using a by (simp add: author_def session_get_user_def commit_post_def)
  have "update_post i title content s =
       (Inr \<lparr>pt_id = i,
             pt_title = (case content of None \<Rightarrow> p_content p | Some c \<Rightarrow> c),
             pt_content = (case content of None \<Rightarrow> p_content p | Some c \<Rightarrow> c),
             pt_created_at = isoformat (p_created_at p), pt_author = to_UserType a\<rparr>,
        commit_post ?w s)"
    using assms(2) g au k
    by (cases title; cases content) (simp_all add: update_post_def Let_def)
  with a show ?thesis by blast
qed

end
